theory Spec2Isabelle
  imports Complex_Main
begin

section \<open>Python strings\<close>

text \<open>
  A Python \<open>str\<close> is a sequence of Unicode code points, so a character is modelled by
  its code point and a string by a list of them. \<open>str\<close> turns an Isabelle literal
  (ASCII) into such a string.
\<close>

type_synonym pychar = nat
type_synonym pystr = "pychar list"

definition str :: "string \<Rightarrow> pystr" where
  "str s = map of_char s"

text \<open>Code points used by the program: line feed, carriage return, space, hash, equals.\<close>

definition LF :: pychar where "LF = 10"
definition CR :: pychar where "CR = 13"
definition SP :: pychar where "SP = 32"
definition HASH :: pychar where "HASH = 35"
definition EQ :: pychar where "EQ = 61"

text \<open>
  \<open>str.isspace\<close> for one character (the code points \<open>str.strip()\<close> removes), and
  the line boundaries of \<open>str.splitlines()\<close>.
\<close>

definition is_space :: "pychar \<Rightarrow> bool" where
  "is_space c =
     ((9 \<le> c \<and> c \<le> 13) \<or> (28 \<le> c \<and> c \<le> 32) \<or> c = 133 \<or> c = 160 \<or> c = 5760
      \<or> (8192 \<le> c \<and> c \<le> 8202) \<or> c = 8232 \<or> c = 8233 \<or> c = 8239 \<or> c = 8287
      \<or> c = 12288)"

definition is_linebreak :: "pychar \<Rightarrow> bool" where
  "is_linebreak c =
     ((10 \<le> c \<and> c \<le> 13) \<or> (28 \<le> c \<and> c \<le> 30) \<or> c = 133 \<or> c = 8232 \<or> c = 8233)"

text \<open>\<open>s.strip()\<close>: leading and trailing whitespace removed.\<close>

definition lstrip :: "pystr \<Rightarrow> pystr" where
  "lstrip s = dropWhile is_space s"

definition rstrip :: "pystr \<Rightarrow> pystr" where
  "rstrip s = rev (dropWhile is_space (rev s))"

definition strip :: "pystr \<Rightarrow> pystr" where
  "strip s = rstrip (lstrip s)"

text \<open>\<open>s.startswith(p)\<close> and the substring test \<open>p in s\<close>.\<close>

definition startswith :: "pystr \<Rightarrow> pystr \<Rightarrow> bool" where
  "startswith s p = (take (length p) s = p)"

fun contains :: "pystr \<Rightarrow> pystr \<Rightarrow> bool" where
  "contains [] p = (p = [])"
| "contains (c # cs) p = (startswith (c # cs) p \<or> contains cs p)"

text \<open>
  \<open>s.partition(sep)\<close> for a one-character separator: the part before the first
  occurrence, the separator, the part after it; the whole string and two empty strings
  when the separator does not occur.
\<close>

definition partition1 :: "pystr \<Rightarrow> pychar \<Rightarrow> pystr \<times> pystr \<times> pystr" where
  "partition1 s sep =
     (if sep \<in> set s
      then (takeWhile (\<lambda>c. c \<noteq> sep) s, [sep], tl (dropWhile (\<lambda>c. c \<noteq> sep) s))
      else (s, [], []))"

text \<open>
  \<open>s.index(c)\<close> for a character that occurs in \<open>s\<close>: the position of its first
  occurrence. The program calls it only under the guard \<open>c in s\<close>, so the
  \<open>ValueError\<close> of an absent character is the \<open>None\<close> here.
\<close>

definition index1 :: "pystr \<Rightarrow> pychar \<Rightarrow> nat option" where
  "index1 s c = (if c \<in> set s then Some (length (takeWhile (\<lambda>x. x \<noteq> c) s)) else None)"

text \<open>
  \<open>s.splitlines()\<close>: the string is cut at every line boundary, \<open>\r\n\<close> counting as
  one boundary; the boundaries are dropped, and a final boundary opens no further line.
\<close>

function splitlines :: "pystr \<Rightarrow> pystr list" where
  "splitlines s =
     (if s = [] then []
      else takeWhile (\<lambda>c. \<not> is_linebreak c) s #
           (case dropWhile (\<lambda>c. \<not> is_linebreak c) s of
              [] \<Rightarrow> []
            | c # cs \<Rightarrow>
                (case cs of
                   [] \<Rightarrow> []
                 | d # ds \<Rightarrow> if c = CR \<and> d = LF then splitlines ds else splitlines cs)))"
  by pat_completeness auto
termination
proof (relation "measure length")
  show "wf (measure length)" by simp
next
  fix s cs ds :: pystr and c d :: pychar
  assume d: "dropWhile (\<lambda>c. \<not> is_linebreak c) s = c # cs" and cs: "cs = d # ds"
  have "length (dropWhile (\<lambda>c. \<not> is_linebreak c) s) \<le> length s"
    by (rule length_dropWhile_le)
  with d cs show "(ds, s) \<in> measure length" by simp
next
  fix s cs :: pystr and c :: pychar
  assume d: "dropWhile (\<lambda>c. \<not> is_linebreak c) s = c # cs"
  have "length (dropWhile (\<lambda>c. \<not> is_linebreak c) s) \<le> length s"
    by (rule length_dropWhile_le)
  with d show "(cs, s) \<in> measure length" by simp
qed

declare splitlines.simps [simp del]

text \<open>\<open>sep.join(lines)\<close> for the separator \<open>"\n"\<close>.\<close>

fun join_lf :: "pystr list \<Rightarrow> pystr" where
  "join_lf [] = []"
| "join_lf [l] = l"
| "join_lf (l # m # ls) = l @ LF # join_lf (m # ls)"

section \<open>The configuration text (api.py)\<close>

text \<open>
  \<open>_replace_config_param\<close>: the loop over \<open>enumerate(lines)\<close> overwrites the first
  line whose key is the parameter and breaks; \<open>None\<close> is the result when no line
  was found.
\<close>

definition new_line :: "pystr \<Rightarrow> pystr \<Rightarrow> pystr \<Rightarrow> pystr" where
  "new_line line param new_value =
     (if contains line (str '' = '') then param @ str '' = '' @ new_value
      else param @ str ''='' @ new_value)"

fun replace_loop :: "pystr list \<Rightarrow> pystr \<Rightarrow> pystr \<Rightarrow> pystr list option" where
  "replace_loop [] param new_value = None"
| "replace_loop (line # rest) param new_value =
     (let stripped = strip line in
      if startswith stripped (str ''#'') then
        map_option (Cons line) (replace_loop rest param new_value)
      else if EQ \<in> set stripped then
        (case partition1 stripped EQ of (key, _, _) \<Rightarrow>
           if strip key = param then Some (new_line line param new_value # rest)
           else map_option (Cons line) (replace_loop rest param new_value))
      else map_option (Cons line) (replace_loop rest param new_value))"

definition replace_config_param :: "pystr \<Rightarrow> pystr \<Rightarrow> pystr \<Rightarrow> pystr option" where
  "replace_config_param config_text param new_value =
     (case replace_loop (splitlines config_text) param new_value of
        None \<Rightarrow> None
      | Some lines \<Rightarrow> Some (join_lf lines @ [LF]))"

text \<open>
  \<open>_parse_config\<close>: one pass over the lines, each accepted line overwriting the
  dictionary entry of its key. \<open>parse_line\<close> is the loop body: the entry the line
  contributes, if any.
\<close>

definition parse_line :: "pystr \<Rightarrow> (pystr \<times> pystr) option" where
  "parse_line line0 =
     (let line = strip line0 in
      if line = [] \<or> startswith line (str ''#'') then None
      else if EQ \<in> set line then
        (case partition1 line EQ of (key0, _, value0) \<Rightarrow>
           let key = strip key0;
               value1 = strip value0;
               value = (if HASH \<in> set value1
                        then (case index1 value1 HASH of
                                Some i \<Rightarrow> strip (take i value1)
                              | None \<Rightarrow> value1)
                        else value1)
           in if key \<noteq> [] \<and> \<not> startswith key (str ''#'') then Some (key, value) else None)
      else None)"

fun parse_loop :: "(pystr \<rightharpoonup> pystr) \<Rightarrow> pystr list \<Rightarrow> (pystr \<rightharpoonup> pystr)" where
  "parse_loop config [] = config"
| "parse_loop config (line # rest) =
     (case parse_line line of
        None \<Rightarrow> parse_loop config rest
      | Some (key, value) \<Rightarrow> parse_loop (config(key \<mapsto> value)) rest)"

definition parse_config :: "pystr \<Rightarrow> (pystr \<rightharpoonup> pystr)" where
  "parse_config text = parse_loop Map.empty (splitlines text)"

section \<open>The HTTP client (api.py)\<close>

text \<open>
  Exceptions are values. \<open>LucjanConnectionError\<close> and \<open>LucjanAuthError\<close> are
  subclasses of \<open>LucjanApiError\<close>, so a handler \<open>except LucjanApiError\<close> catches all
  three (\<open>is_api_error\<close>) and nothing else. The built-in exceptions are the ones the
  modelled operations of Python raise; \<open>OtherError\<close> stands for every further exception
  outside the hierarchy which no handler of the program names.
\<close>

datatype exn =
    LucjanApiError
  | LucjanConnectionError
  | LucjanAuthError
  | UpdateFailed
  | OverflowError
  | ZeroDivisionError
  | ValueError
  | TypeError
  | AttributeError
  | KeyError
  | IndexError
  | UnicodeEncodeError
  | OtherError

fun is_api_error :: "exn \<Rightarrow> bool" where
  "is_api_error LucjanApiError = True"
| "is_api_error LucjanConnectionError = True"
| "is_api_error LucjanAuthError = True"
| "is_api_error _ = False"

text \<open>
  What the client does to the outside world, in order: a GET of a URL, a PUT of a URL
  with the bytes of the body, a sleep (in milliseconds).
\<close>

datatype event = Get pystr | Put pystr "nat list" | Sleep nat

text \<open>
  What the session answers to a request: \<open>asyncio.TimeoutError\<close>, an
  \<open>aiohttp.ClientError\<close>, some other exception, or a response with its status and its
  body (\<open>None\<close> when reading the body raises). The device and the network are a
  function from the events so far, the request included, to that answer.
\<close>

record response =
  status :: nat
  body :: "pystr option"

datatype outcome = Timeout | ClientError | Raised | Resp response

type_synonym device = "event list \<Rightarrow> outcome"

text \<open>An awaited operation: from the events so far to a result or an exception, and the events after.\<close>

type_synonym 'a io = "event list \<Rightarrow> (exn + 'a) \<times> event list"

definition return_io :: "'a \<Rightarrow> 'a io" where
  "return_io x tr = (Inr x, tr)"

definition raise_io :: "exn \<Rightarrow> 'a io" where
  "raise_io e tr = (Inl e, tr)"

definition bind_io :: "'a io \<Rightarrow> ('a \<Rightarrow> 'b io) \<Rightarrow> 'b io" where
  "bind_io m f tr = (case m tr of (Inl e, tr') \<Rightarrow> (Inl e, tr') | (Inr x, tr') \<Rightarrow> f x tr')"

text \<open>\<open>try: m  except LucjanApiError as err: h err\<close>\<close>

definition except_api :: "'a io \<Rightarrow> (exn \<Rightarrow> 'a io) \<Rightarrow> 'a io" where
  "except_api m h tr =
     (case m tr of
        (Inl e, tr') \<Rightarrow> if is_api_error e then h e tr' else (Inl e, tr')
      | (Inr x, tr') \<Rightarrow> (Inr x, tr'))"

definition sleep :: "nat \<Rightarrow> unit io" where
  "sleep ms tr = (Inr (), tr @ [Sleep ms])"

record LucjanApi =
  host :: pystr
  session :: bool
  base_url :: pystr
  auth :: "(pystr \<times> pystr) option"

definition ENDPOINT_THERMOS :: pystr where
  "ENDPOINT_THERMOS = str ''/thermos.json''"

definition ENDPOINT_CONFIG :: pystr where
  "ENDPOINT_CONFIG = str ''/config.txt''"

text \<open>
  \<open>_get\<close> and \<open>_put\<close>: without a session \<open>LucjanConnectionError\<close> is raised before
  anything is sent; a timeout or client error of the session becomes
  \<open>LucjanConnectionError\<close>, status 401 \<open>LucjanAuthError\<close>, any other status but 200
  \<open>LucjanApiError\<close>.
\<close>

definition LucjanApi_get :: "LucjanApi \<Rightarrow> device \<Rightarrow> pystr \<Rightarrow> response io" where
  "LucjanApi_get api dev endpoint tr =
     (let url = base_url api @ endpoint in
      if \<not> session api then (Inl LucjanConnectionError, tr)
      else (case dev (tr @ [Get url]) of
              Timeout \<Rightarrow> (Inl LucjanConnectionError, tr @ [Get url])
            | ClientError \<Rightarrow> (Inl LucjanConnectionError, tr @ [Get url])
            | Raised \<Rightarrow> (Inl OtherError, tr @ [Get url])
            | Resp response \<Rightarrow>
                if status response = 401 then (Inl LucjanAuthError, tr @ [Get url])
                else if status response \<noteq> 200 then (Inl LucjanApiError, tr @ [Get url])
                else (Inr response, tr @ [Get url])))"

definition LucjanApi_put :: "LucjanApi \<Rightarrow> device \<Rightarrow> pystr \<Rightarrow> nat list \<Rightarrow> response io" where
  "LucjanApi_put api dev endpoint data tr =
     (let url = base_url api @ endpoint in
      if \<not> session api then (Inl LucjanConnectionError, tr)
      else (case dev (tr @ [Put url data]) of
              Timeout \<Rightarrow> (Inl LucjanConnectionError, tr @ [Put url data])
            | ClientError \<Rightarrow> (Inl LucjanConnectionError, tr @ [Put url data])
            | Raised \<Rightarrow> (Inl OtherError, tr @ [Put url data])
            | Resp response \<Rightarrow>
                if status response = 401 then (Inl LucjanAuthError, tr @ [Put url data])
                else if status response \<noteq> 200 then (Inl LucjanApiError, tr @ [Put url data])
                else (Inr response, tr @ [Put url data])))"

text \<open>\<open>await response.text()\<close>\<close>

definition response_text :: "response \<Rightarrow> pystr io" where
  "response_text r = (case body r of None \<Rightarrow> raise_io OtherError | Some t \<Rightarrow> return_io t)"

definition async_get_config_raw :: "LucjanApi \<Rightarrow> device \<Rightarrow> pystr io" where
  "async_get_config_raw api dev =
     bind_io (LucjanApi_get api dev ENDPOINT_CONFIG) response_text"


text \<open>
  \<open>async_set_variable\<close>; \<open>value\<close> is the text that the f-string puts into the URL for
  the value.
\<close>

definition async_set_variable :: "LucjanApi \<Rightarrow> device \<Rightarrow> pystr \<Rightarrow> pystr \<Rightarrow> bool io" where
  "async_set_variable api dev name value =
     except_api
       (bind_io (LucjanApi_get api dev (str ''/set'' @ name @ str ''='' @ value)) (\<lambda>_.
        return_io True))
       (\<lambda>err. return_io False)"

text \<open>
  \<open>s.encode("utf-8")\<close>: the bytes of each code point; a surrogate (and a number that is
  no code point) cannot be encoded and raises \<open>UnicodeEncodeError\<close>.
\<close>

definition utf8_char :: "pychar \<Rightarrow> nat list" where
  "utf8_char c =
     (if c < 128 then [c]
      else if c < 2048 then [192 + c div 64, 128 + c mod 64]
      else if c < 65536 then [224 + c div 4096, 128 + (c div 64) mod 64, 128 + c mod 64]
      else [240 + c div 262144, 128 + (c div 4096) mod 64, 128 + (c div 64) mod 64,
            128 + c mod 64])"

definition encode_utf8 :: "pystr \<Rightarrow> nat list io" where
  "encode_utf8 s =
     (if list_ex (\<lambda>c. (55296 \<le> c \<and> c \<le> 57343) \<or> 1114111 < c) s
      then raise_io UnicodeEncodeError
      else return_io (concat (map utf8_char s)))"

definition async_set_config_param :: "LucjanApi \<Rightarrow> device \<Rightarrow> pystr \<Rightarrow> pystr \<Rightarrow> bool io" where
  "async_set_config_param api dev param value =
     except_api
       (bind_io (async_get_config_raw api dev) (\<lambda>raw_config.
        case replace_config_param raw_config param value of
          None \<Rightarrow> return_io False
        | Some new_config \<Rightarrow>
            bind_io (encode_utf8 new_config) (\<lambda>data.
            bind_io (LucjanApi_put api dev (str ''/upload/config.txt'') data) (\<lambda>_.
            bind_io (sleep 500) (\<lambda>_.
            bind_io (LucjanApi_get api dev (str ''/configreload'')) (\<lambda>_.
            return_io True))))))
       (\<lambda>err. return_io False)"

definition async_set_boiler_mode :: "LucjanApi \<Rightarrow> device \<Rightarrow> bool \<Rightarrow> bool io" where
  "async_set_boiler_mode api dev auto =
     async_set_config_param api dev (str ''PIEC_TRYB'')
       (if auto then str ''AUTO'' else str ''RECZNY'')"

text \<open>
  \<open>async_set_co_circuit\<close> is defined twice in the class; the second definition
  (the three-step sequence) replaces the first and is the one modelled.
\<close>

definition async_set_co_circuit :: "LucjanApi \<Rightarrow> device \<Rightarrow> bool \<Rightarrow> bool io" where
  "async_set_co_circuit api dev enabled =
     (let co_value = (if enabled then str ''ZIMA'' else str ''ZIM'') in
      except_api
        (bind_io (async_set_config_param api dev (str ''PIEC_TRYB'') (str ''RECZNY'')) (\<lambda>_.
         bind_io (sleep 1000) (\<lambda>_.
         bind_io (async_set_config_param api dev (str ''CO_TRYB'') co_value) (\<lambda>_.
         bind_io (sleep 1000) (\<lambda>_.
         bind_io (async_set_config_param api dev (str ''PIEC_TRYB'') (str ''AUTO'')) (\<lambda>_.
         return_io True))))))
        (\<lambda>err.
         bind_io
           (except_api
              (bind_io (async_set_config_param api dev (str ''PIEC_TRYB'') (str ''AUTO''))
                 (\<lambda>_. return_io ()))
              (\<lambda>_. return_io ()))
           (\<lambda>_. return_io False)))"

text \<open>The system commands: one GET each, its \<open>LucjanApiError\<close> turned into \<open>False\<close>.\<close>

definition async_alarm_reset :: "LucjanApi \<Rightarrow> device \<Rightarrow> bool io" where
  "async_alarm_reset api dev =
     except_api
       (bind_io (LucjanApi_get api dev (str ''/alarmreset'')) (\<lambda>_. return_io True))
       (\<lambda>err. return_io False)"

definition async_config_reload :: "LucjanApi \<Rightarrow> device \<Rightarrow> bool io" where
  "async_config_reload api dev =
     except_api
       (bind_io (LucjanApi_get api dev (str ''/configreload'')) (\<lambda>_. return_io True))
       (\<lambda>err. return_io False)"

definition async_hopper_full :: "LucjanApi \<Rightarrow> device \<Rightarrow> bool io" where
  "async_hopper_full api dev =
     except_api
       (bind_io (LucjanApi_get api dev (str ''/zasobnikfull'')) (\<lambda>_. return_io True))
       (\<lambda>err. return_io False)"

definition async_reset_controller :: "LucjanApi \<Rightarrow> device \<Rightarrow> bool io" where
  "async_reset_controller api dev =
     except_api
       (bind_io (LucjanApi_get api dev (str ''/reset'')) (\<lambda>_. return_io True))
       (\<lambda>err. return_io False)"

section \<open>Python floats\<close>

text \<open>
  A Python \<open>float\<close> is an IEEE 754 double: a finite value, which is a rational number,
  an infinity or NaN. The two zeros are one value here (\<open>Fin 0\<close>): Python's comparisons
  do not tell them apart, and the program only compares and computes.
  \<open>to_double\<close> rounds a rational to the nearest double, ties to even, with the
  subnormal range below \<open>2^-1022\<close> and overflow to an infinity from \<open>2^1024\<close> on.
\<close>

datatype pyfloat = Fin rat | PInf | NInf | NaN

text \<open>The number of binary digits of a positive integer.\<close>

function bitlen :: "int \<Rightarrow> nat" where
  "bitlen n = (if n \<le> 0 then 0 else Suc (bitlen (n div 2)))"
  by pat_completeness auto
termination
  by (relation "measure nat") auto

declare bitlen.simps [simp del]

definition pow2 :: "int \<Rightarrow> rat" where
  "pow2 e = (if 0 \<le> e then 2 ^ nat e else 1 / 2 ^ nat (- e))"

text \<open>\<open>ilog2 x\<close> is the exponent \<open>e\<close> with \<open>2^e \<le> |x| < 2^(e+1)\<close>, for \<open>x \<noteq> 0\<close>.\<close>

definition ilog2 :: "rat \<Rightarrow> int" where
  "ilog2 x =
     (case quotient_of \<bar>x\<bar> of (p, q) \<Rightarrow>
        let e = int (bitlen p) - int (bitlen q)
        in if pow2 e \<le> \<bar>x\<bar> then e else e - 1)"

definition round_half_even :: "rat \<Rightarrow> int" where
  "round_half_even x =
     (let f = \<lfloor>x\<rfloor>; d = x - of_int f
      in if d < 1 / 2 then f
         else if 1 / 2 < d then f + 1
         else if even f then f else f + 1)"

definition to_double :: "rat \<Rightarrow> pyfloat" where
  "to_double x =
     (if x = 0 then Fin 0
      else let ulp = pow2 (max (ilog2 x) (- 1022) - 52);
               y = of_int (round_half_even (x / ulp)) * ulp
           in if pow2 1024 \<le> \<bar>y\<bar> then (if 0 < x then PInf else NInf) else Fin y)"

text \<open>\<open>float(n)\<close> for an \<open>int\<close>: correctly rounded, \<open>OverflowError\<close> beyond the doubles.\<close>

definition float_of_int :: "int \<Rightarrow> exn + pyfloat" where
  "float_of_int n =
     (case to_double (of_int n) of
        Fin y \<Rightarrow> Inr (Fin y)
      | _ \<Rightarrow> Inl OverflowError)"

text \<open>\<open>x < y\<close> on floats: false whenever NaN is involved.\<close>

fun flt :: "pyfloat \<Rightarrow> pyfloat \<Rightarrow> bool" where
  "flt NaN _ = False"
| "flt _ NaN = False"
| "flt (Fin x) (Fin y) = (x < y)"
| "flt (Fin x) PInf = True"
| "flt (Fin x) NInf = False"
| "flt PInf _ = False"
| "flt NInf (Fin y) = True"
| "flt NInf PInf = True"
| "flt NInf NInf = False"

definition fgt :: "pyfloat \<Rightarrow> pyfloat \<Rightarrow> bool" where
  "fgt x y = flt y x"

text \<open>\<open>x * y\<close> and \<open>x / y\<close> on floats; the division raises on a zero divisor.\<close>

fun fmul :: "pyfloat \<Rightarrow> pyfloat \<Rightarrow> pyfloat" where
  "fmul NaN _ = NaN"
| "fmul _ NaN = NaN"
| "fmul (Fin x) (Fin y) = to_double (x * y)"
| "fmul (Fin x) PInf = (if x = 0 then NaN else if 0 < x then PInf else NInf)"
| "fmul (Fin x) NInf = (if x = 0 then NaN else if 0 < x then NInf else PInf)"
| "fmul PInf (Fin y) = (if y = 0 then NaN else if 0 < y then PInf else NInf)"
| "fmul NInf (Fin y) = (if y = 0 then NaN else if 0 < y then NInf else PInf)"
| "fmul PInf PInf = PInf"
| "fmul PInf NInf = NInf"
| "fmul NInf PInf = NInf"
| "fmul NInf NInf = PInf"

fun fdiv :: "pyfloat \<Rightarrow> pyfloat \<Rightarrow> exn + pyfloat" where
  "fdiv x (Fin y) =
     (if y = 0 then Inl ZeroDivisionError
      else (case x of
              Fin a \<Rightarrow> Inr (to_double (a / y))
            | PInf \<Rightarrow> Inr (if 0 < y then PInf else NInf)
            | NInf \<Rightarrow> Inr (if 0 < y then NInf else PInf)
            | NaN \<Rightarrow> Inr NaN))"
| "fdiv x NaN = Inr NaN"
| "fdiv (Fin a) _ = Inr (Fin 0)"
| "fdiv _ _ = Inr NaN"

text \<open>
  \<open>round(x, ndigits)\<close> for \<open>ndigits \<ge> 0\<close>: an infinity or NaN is returned as it is; a
  finite value is rounded, ties to even, to that many decimals, and the decimal result
  is read back as a double (\<open>OverflowError\<close> if that is not finite).
\<close>

definition py_round :: "pyfloat \<Rightarrow> nat \<Rightarrow> exn + pyfloat" where
  "py_round x ndigits =
     (case x of
        Fin a \<Rightarrow>
          (case to_double (of_int (round_half_even (a * 10 ^ ndigits)) / 10 ^ ndigits) of
             Fin y \<Rightarrow> Inr (Fin y)
           | _ \<Rightarrow> Inl OverflowError)
      | _ \<Rightarrow> Inr x)"

section \<open>The snapshot (coordinator.py)\<close>

text \<open>
  The status is the value that \<open>json\<close> decoding gives: \<open>None\<close>, a \<open>bool\<close>, an
  \<open>int\<close>, a \<open>float\<close>, a \<open>str\<close>, a list, or a dictionary with its items (a key
  occurs once in a dictionary; a lookup in the list takes the first item of the key).
\<close>

datatype json =
    JNull
  | JBool bool
  | JInt int
  | JFloat pyfloat
  | JStr pystr
  | JArr "json list"
  | JObj "(pystr \<times> json) list"

text \<open>
  \<open>dict.get(key)\<close> on the decoded status: \<open>None\<close> for a missing key and for a key
  whose value is \<open>null\<close>.
\<close>

definition dict_get :: "(pystr \<times> json) list \<Rightarrow> pystr \<Rightarrow> json" where
  "dict_get d key = (case map_of d key of None \<Rightarrow> JNull | Some v \<Rightarrow> v)"

text \<open>
  \<open>_safe_float\<close>. \<open>float(value)\<close> is the value itself for a float, 1.0 or 0.0 for a
  bool, the rounded integer for an int (its \<open>OverflowError\<close> is not among the
  exceptions the function catches), Python's parser for a string (the parameter
  \<open>parse_float\<close>, \<open>None\<close> where it raises \<open>ValueError\<close>), and a \<open>TypeError\<close> for a list
  or a dictionary.
\<close>

definition safe_float :: "(pystr \<Rightarrow> pyfloat option) \<Rightarrow> json \<Rightarrow> exn + pyfloat option" where
  "safe_float parse_float value =
     (case value of
        JNull \<Rightarrow> Inr None
      | JBool b \<Rightarrow> Inr (Some (Fin (if b then 1 else 0)))
      | JInt n \<Rightarrow> (case float_of_int n of Inl e \<Rightarrow> Inl e | Inr x \<Rightarrow> Inr (Some x))
      | JFloat x \<Rightarrow> Inr (Some x)
      | JStr s \<Rightarrow> Inr (parse_float s)
      | JArr _ \<Rightarrow> Inr None
      | JObj _ \<Rightarrow> Inr None)"

definition safe_positive :: "(pystr \<Rightarrow> pyfloat option) \<Rightarrow> json \<Rightarrow> exn + pyfloat option" where
  "safe_positive parse_float value =
     (case safe_float parse_float value of
        Inl e \<Rightarrow> Inl e
      | Inr result \<Rightarrow>
          (case result of
             None \<Rightarrow> Inr None
           | Some r \<Rightarrow> if flt r (Fin 0) then Inr None else Inr (Some r)))"

text \<open>
  The operations of Python that \<open>__init__\<close> applies to status values. \<open>len(x)\<close> is
  defined for a list, a string and a dictionary; \<open>x[i]\<close> gives the element of a list or
  the character of a string and looks the number up as a key in a dictionary, which has
  string keys only; \<open>x.get(key)\<close> exists for a dictionary only. \<open>int(x)\<close> truncates a
  float (\<open>ValueError\<close> for NaN, \<open>OverflowError\<close> for an infinity) and reads a string with
  Python's parser (the parameter \<open>parse_int\<close>, \<open>None\<close> where it raises
  \<open>ValueError\<close>). \<open>str(x)\<close> is the string itself for a string and Python's rendering
  (the parameter \<open>to_str\<close>) for the other values.
\<close>

definition dict_get_default :: "(pystr \<times> json) list \<Rightarrow> pystr \<Rightarrow> json \<Rightarrow> json" where
  "dict_get_default d key dflt = (case map_of d key of None \<Rightarrow> dflt | Some v \<Rightarrow> v)"

definition py_len :: "json \<Rightarrow> exn + nat" where
  "py_len x =
     (case x of
        JArr xs \<Rightarrow> Inr (length xs)
      | JStr s \<Rightarrow> Inr (length s)
      | JObj d \<Rightarrow> Inr (length d)
      | _ \<Rightarrow> Inl TypeError)"

definition py_getitem :: "json \<Rightarrow> nat \<Rightarrow> exn + json" where
  "py_getitem x i =
     (case x of
        JArr xs \<Rightarrow> if i < length xs then Inr (xs ! i) else Inl IndexError
      | JStr s \<Rightarrow> if i < length s then Inr (JStr [s ! i]) else Inl IndexError
      | JObj d \<Rightarrow> Inl KeyError
      | _ \<Rightarrow> Inl TypeError)"

definition py_get :: "json \<Rightarrow> pystr \<Rightarrow> exn + json" where
  "py_get x key = (case x of JObj d \<Rightarrow> Inr (dict_get d key) | _ \<Rightarrow> Inl AttributeError)"

definition py_int :: "(pystr \<Rightarrow> int option) \<Rightarrow> json \<Rightarrow> exn + int" where
  "py_int parse_int value =
     (case value of
        JNull \<Rightarrow> Inl TypeError
      | JBool b \<Rightarrow> Inr (if b then 1 else 0)
      | JInt n \<Rightarrow> Inr n
      | JFloat x \<Rightarrow>
          (case x of
             Fin a \<Rightarrow> Inr (if 0 \<le> a then \<lfloor>a\<rfloor> else \<lceil>a\<rceil>)
           | NaN \<Rightarrow> Inl ValueError
           | _ \<Rightarrow> Inl OverflowError)
      | JStr s \<Rightarrow> (case parse_int s of None \<Rightarrow> Inl ValueError | Some n \<Rightarrow> Inr n)
      | JArr _ \<Rightarrow> Inl TypeError
      | JObj _ \<Rightarrow> Inl TypeError)"

definition py_str :: "(json \<Rightarrow> pystr) \<Rightarrow> json \<Rightarrow> pystr" where
  "py_str to_str value = (case value of JStr s \<Rightarrow> s | _ \<Rightarrow> to_str value)"

text \<open>
  \<open>_safe_int\<close> and \<open>_int_to_bool\<close>: \<open>None\<close> gives \<open>None\<close> and \<open>False\<close>; a
  \<open>ValueError\<close> or \<open>TypeError\<close> of \<open>int(value)\<close> is caught, its \<open>OverflowError\<close> is not.
\<close>

definition safe_int :: "(pystr \<Rightarrow> int option) \<Rightarrow> json \<Rightarrow> exn + int option" where
  "safe_int parse_int value =
     (if value = JNull then Inr None
      else (case py_int parse_int value of
              Inl e \<Rightarrow> if e = ValueError \<or> e = TypeError then Inr None else Inl e
            | Inr n \<Rightarrow> Inr (Some n)))"

definition int_to_bool :: "(pystr \<Rightarrow> int option) \<Rightarrow> json \<Rightarrow> exn + bool" where
  "int_to_bool parse_int value =
     (if value = JNull then Inr False
      else (case py_int parse_int value of
              Inl e \<Rightarrow> if e = ValueError \<or> e = TypeError then Inr False else Inl e
            | Inr n \<Rightarrow> Inr (n \<noteq> 0)))"

text \<open>\<open>LucjanData\<close>: every attribute that \<open>__init__\<close> assigns, in its order.\<close>

record LucjanData =
  raw_thermos :: "(pystr \<times> json) list"
  raw_config :: "pystr \<rightharpoonup> pystr"
  temperatures :: "(pystr \<times> pyfloat option) list"
  pump_co :: bool
  pump_cwu1 :: bool
  pump_cwu2 :: bool
  circulation :: bool
  feeder :: bool
  thermostat :: bool
  alarm :: bool
  fan_power :: "pyfloat option"
  fan_modulation :: "pyfloat option"
  feeder_time_s :: "pyfloat option"
  feeder_time_remaining_s :: "pyfloat option"
  feeder_time_total_s :: "pyfloat option"
  feeder_g_per_min :: "pyfloat option"
  hopper_cm :: "pyfloat option"
  hopper_percent_raw :: "pyfloat option"
  firmware_version :: pystr
  uptime_seconds :: "int option"
  target_temp_co :: "pyfloat option"
  target_temp_cwu :: "pyfloat option"
  boiler_mode :: pystr
  co_mode :: pystr
  cwu_mode :: pystr
  algorithm :: pystr
  piec_t_max :: "pyfloat option"
  piec_t_min :: "pyfloat option"
  co_algorytm :: pystr
  cwu_algorytm :: pystr
  cwu_priorytet :: pystr
  cwu_histereza :: "pyfloat option"
  cwu_t_max :: "pyfloat option"
  piec_histereza_raw :: "pyfloat option"
  zawor4d_tryb :: pystr
  zawor4d_zadana :: "pyfloat option"
  zawor4d_czujnik :: pystr
  zawor4d_histereza_raw :: "pyfloat option"
  zawor4d_preset :: "pyfloat option"
  cyrkulacja_algorytm :: pystr
  cyrkulacja_tmin :: "pyfloat option"
  autolato_temp :: "pyfloat option"
  autolato_twew :: "pyfloat option"
  autolato_histereza_raw :: "pyfloat option"

text \<open>\<open>config.get(key)\<close> handed to \<open>_safe_float\<close>, and \<open>config.get(key, "unknown")\<close>.\<close>

definition config_get :: "(pystr \<rightharpoonup> pystr) \<Rightarrow> pystr \<Rightarrow> json" where
  "config_get config key = (case config key of None \<Rightarrow> JNull | Some v \<Rightarrow> JStr v)"

definition config_get_unknown :: "(pystr \<rightharpoonup> pystr) \<Rightarrow> pystr \<Rightarrow> pystr" where
  "config_get_unknown config key = (case config key of None \<Rightarrow> str ''unknown'' | Some v \<Rightarrow> v)"

text \<open>Sequencing of steps that may raise.\<close>

definition bind_exn :: "exn + 'a \<Rightarrow> ('a \<Rightarrow> exn + 'b) \<Rightarrow> exn + 'b" where
  "bind_exn m f = (case m of Inl e \<Rightarrow> Inl e | Inr x \<Rightarrow> f x)"

definition TEMP_SENSORS :: "pystr list" where
  "TEMP_SENSORS =
     [str ''tPIEC'', str ''tPOWROT'', str ''tPODAJNIK'', str ''tZEW'', str ''tWEW'', str ''tCWU'',
      str ''tPODLOGA'', str ''tSPALINY'', str ''tT1'', str ''tT2'', str ''tT3'', str ''tT4'',
      str ''tT5'', str ''tT6'', str ''tT7'', str ''tT8'']"

text \<open>
  The loop \<open>for i, sensor_key in enumerate(TEMP_SENSORS)\<close> that fills the dictionary
  \<open>temperatures\<close> (its items in the order of insertion).
\<close>

fun temperatures_loop ::
  "(pystr \<Rightarrow> pyfloat option) \<Rightarrow> json \<Rightarrow> nat \<Rightarrow> pystr list \<Rightarrow> exn + (pystr \<times> pyfloat option) list"
where
  "temperatures_loop parse_float thermos_list i [] = Inr []"
| "temperatures_loop parse_float thermos_list i (sensor_key # rest) =
     bind_exn (py_len thermos_list) (\<lambda>n.
       if i < n then
         bind_exn (py_getitem thermos_list i) (\<lambda>item.
         bind_exn (py_get item (str ''t'')) (\<lambda>val.
         bind_exn (safe_float parse_float val) (\<lambda>t.
         bind_exn (temperatures_loop parse_float thermos_list (i + 1) rest) (\<lambda>ts.
         Inr ((sensor_key, t) # ts)))))
       else
         bind_exn (temperatures_loop parse_float thermos_list (i + 1) rest) (\<lambda>ts.
         Inr ((sensor_key, None) # ts)))"

definition LucjanData_init ::
  "(pystr \<Rightarrow> pyfloat option) \<Rightarrow> (pystr \<Rightarrow> int option) \<Rightarrow> (json \<Rightarrow> pystr) \<Rightarrow>
   (pystr \<times> json) list \<Rightarrow> (pystr \<rightharpoonup> pystr) \<Rightarrow> exn + LucjanData"
where
  "LucjanData_init parse_float parse_int to_str thermos config =
     bind_exn (temperatures_loop parse_float
                 (dict_get_default thermos (str ''thermos'') (JArr [])) 0 TEMP_SENSORS) (\<lambda>v_temperatures.
     bind_exn (int_to_bool parse_int (dict_get thermos (str ''co''))) (\<lambda>v_pump_co.
     bind_exn (int_to_bool parse_int (dict_get thermos (str ''cwu1''))) (\<lambda>v_pump_cwu1.
     bind_exn (int_to_bool parse_int (dict_get thermos (str ''cwu2''))) (\<lambda>v_pump_cwu2.
     bind_exn (int_to_bool parse_int (dict_get thermos (str ''cyrk''))) (\<lambda>v_circulation.
     bind_exn (int_to_bool parse_int (dict_get thermos (str ''pod''))) (\<lambda>v_feeder.
     bind_exn (int_to_bool parse_int (dict_get thermos (str ''ter''))) (\<lambda>v_thermostat.
     bind_exn (int_to_bool parse_int (dict_get thermos (str ''al''))) (\<lambda>v_alarm.
     bind_exn (safe_float parse_float (dict_get thermos (str ''wen0''))) (\<lambda>v_fan_power.
     bind_exn (safe_float parse_float (dict_get thermos (str ''wen1''))) (\<lambda>v_fan_modulation.
     bind_exn (safe_float parse_float (dict_get thermos (str ''podcz''))) (\<lambda>v_feeder_time_s.
     bind_exn (safe_positive parse_float (dict_get thermos (str ''podczzas''))) (\<lambda>v_feeder_time_remaining_s.
     bind_exn (safe_positive parse_float (dict_get thermos (str ''podczdo''))) (\<lambda>v_feeder_time_total_s.
     bind_exn (safe_positive parse_float (dict_get thermos (str ''podgmin''))) (\<lambda>v_feeder_g_per_min.
     bind_exn (safe_positive parse_float (dict_get thermos (str ''podcm''))) (\<lambda>v_hopper_cm.
     bind_exn (safe_positive parse_float (dict_get thermos (str ''podcmp''))) (\<lambda>v_hopper_percent_raw.
     bind_exn (safe_int parse_int (dict_get thermos (str ''time''))) (\<lambda>v_uptime_seconds.
     bind_exn (safe_float parse_float (config_get config (str ''PIEC_ZADANA''))) (\<lambda>v_target_temp_co.
     bind_exn (safe_float parse_float (config_get config (str ''CWU_ZADANA''))) (\<lambda>v_target_temp_cwu.
     bind_exn (safe_float parse_float (config_get config (str ''PIEC_T_MAX''))) (\<lambda>v_piec_t_max.
     bind_exn (safe_float parse_float (config_get config (str ''PIEC_T_MIN''))) (\<lambda>v_piec_t_min.
     bind_exn (safe_float parse_float (config_get config (str ''CWU_HISTEREZA''))) (\<lambda>v_cwu_histereza.
     bind_exn (safe_float parse_float (config_get config (str ''CWU_T_MAX''))) (\<lambda>v_cwu_t_max.
     bind_exn (safe_float parse_float (config_get config (str ''PIEC_HISTEREZA''))) (\<lambda>v_piec_histereza_raw.
     bind_exn (safe_float parse_float (config_get config (str ''ZAWOR4D-ZADANA''))) (\<lambda>v_zawor4d_zadana.
     bind_exn (safe_float parse_float (config_get config (str ''ZAWOR4D-HISTEREZA''))) (\<lambda>v_zawor4d_histereza_raw.
     bind_exn (safe_float parse_float (config_get config (str ''ZAWOR4D-PRESET''))) (\<lambda>v_zawor4d_preset.
     bind_exn (safe_float parse_float (config_get config (str ''CYRKULACJA_TMIN''))) (\<lambda>v_cyrkulacja_tmin.
     bind_exn (safe_float parse_float (config_get config (str ''AUTOLATO_TEMP''))) (\<lambda>v_autolato_temp.
     bind_exn (safe_float parse_float (config_get config (str ''AUTOLATO_TWEW''))) (\<lambda>v_autolato_twew.
     bind_exn (safe_float parse_float (config_get config (str ''AUTOLATO_HISTEREZA''))) (\<lambda>v_autolato_histereza_raw.
     Inr \<lparr> raw_thermos = thermos,
           raw_config = config,
           temperatures = v_temperatures,
           pump_co = v_pump_co,
           pump_cwu1 = v_pump_cwu1,
           pump_cwu2 = v_pump_cwu2,
           circulation = v_circulation,
           feeder = v_feeder,
           thermostat = v_thermostat,
           alarm = v_alarm,
           fan_power = v_fan_power,
           fan_modulation = v_fan_modulation,
           feeder_time_s = v_feeder_time_s,
           feeder_time_remaining_s = v_feeder_time_remaining_s,
           feeder_time_total_s = v_feeder_time_total_s,
           feeder_g_per_min = v_feeder_g_per_min,
           hopper_cm = v_hopper_cm,
           hopper_percent_raw = v_hopper_percent_raw,
           firmware_version = py_str to_str (dict_get_default thermos (str ''ver'') (JStr (str ''unknown''))),
           uptime_seconds = v_uptime_seconds,
           target_temp_co = v_target_temp_co,
           target_temp_cwu = v_target_temp_cwu,
           boiler_mode = config_get_unknown config (str ''PIEC_TRYB''),
           co_mode = config_get_unknown config (str ''CO_TRYB''),
           cwu_mode = config_get_unknown config (str ''CWU_TRYB''),
           algorithm = config_get_unknown config (str ''PIEC_ALGORYTM''),
           piec_t_max = v_piec_t_max,
           piec_t_min = v_piec_t_min,
           co_algorytm = config_get_unknown config (str ''CO_ALGORYTM''),
           cwu_algorytm = config_get_unknown config (str ''CWU_ALGORYTM''),
           cwu_priorytet = config_get_unknown config (str ''CWU_PRIORYTET''),
           cwu_histereza = v_cwu_histereza,
           cwu_t_max = v_cwu_t_max,
           piec_histereza_raw = v_piec_histereza_raw,
           zawor4d_tryb = config_get_unknown config (str ''ZAWOR4D-TRYB''),
           zawor4d_zadana = v_zawor4d_zadana,
           zawor4d_czujnik = config_get_unknown config (str ''ZAWOR4D-CZUJNIK''),
           zawor4d_histereza_raw = v_zawor4d_histereza_raw,
           zawor4d_preset = v_zawor4d_preset,
           cyrkulacja_algorytm = config_get_unknown config (str ''CYRKULACJA_ALGORYTM''),
           cyrkulacja_tmin = v_cyrkulacja_tmin,
           autolato_temp = v_autolato_temp,
           autolato_twew = v_autolato_twew,
           autolato_histereza_raw = v_autolato_histereza_raw \<rparr>)))))))))))))))))))))))))))))))"

text \<open>The properties \<open>hopper_level_percent\<close> and \<open>fuel_consumption_kg\<close>.\<close>

definition hopper_level_percent :: "LucjanData \<Rightarrow> exn + pyfloat option" where
  "hopper_level_percent self =
     (if hopper_percent_raw self \<noteq> None then Inr (hopper_percent_raw self)
      else (case (feeder_time_remaining_s self, feeder_time_total_s self) of
              (Some remaining_s, Some total_s) \<Rightarrow>
                if fgt total_s (Fin 0) then
                  bind_exn (fdiv remaining_s total_s) (\<lambda>q.
                  bind_exn (py_round (fmul q (Fin 100)) 1) (\<lambda>r.
                  Inr (Some r)))
                else Inr None
            | _ \<Rightarrow> Inr None))"

definition fuel_consumption_kg :: "LucjanData \<Rightarrow> exn + pyfloat option" where
  "fuel_consumption_kg self =
     (case (feeder_time_s self, feeder_g_per_min self) of
        (Some time_s, Some g_per_min) \<Rightarrow>
          if fgt g_per_min (Fin 0) then
            bind_exn (fdiv time_s (Fin 60)) (\<lambda>minutes.
            bind_exn (fdiv (fmul minutes g_per_min) (Fin 1000)) (\<lambda>kg.
            bind_exn (py_round kg 2) (\<lambda>r.
            Inr (Some r))))
          else Inr None
      | _ \<Rightarrow> Inr None)"




section \<open>Reference notions and test inputs\<close>

text \<open>
  The parameter occurs in a line as a non-comment \<open>key=value\<close> line: the trimmed line
  does not start with \<open>#\<close>, contains \<open>=\<close>, and the trimmed text before the first
  \<open>=\<close> is the parameter.
\<close>

definition is_param_line :: "pystr \<Rightarrow> pystr \<Rightarrow> bool" where
  "is_param_line param line =
     (let t = strip line
      in \<not> startswith t (str ''#'') \<and> EQ \<in> set t \<and> strip (takeWhile (\<lambda>c. c \<noteq> EQ) t) = param)"

definition param_occurs :: "pystr \<Rightarrow> pystr \<Rightarrow> bool" where
  "param_occurs param text = list_ex (is_param_line param) (splitlines text)"

text \<open>
  The entry of a line as the specification words it: comment lines and lines without
  \<open>=\<close> or with an empty key give none; otherwise the line is split at the first \<open>=\<close>,
  key and value are trimmed, and the value is cut at an inline \<open>#\<close>.
\<close>

definition spec_entry :: "pystr \<Rightarrow> (pystr \<times> pystr) option" where
  "spec_entry line =
     (let t = strip line in
      if startswith t (str ''#'') then None
      else if EQ \<notin> set t then None
      else let key = strip (takeWhile (\<lambda>c. c \<noteq> EQ) t);
               rest = strip (tl (dropWhile (\<lambda>c. c \<noteq> EQ) t));
               value = strip (takeWhile (\<lambda>c. c \<noteq> HASH) rest)
           in if key = [] then None else Some (key, value))"

text \<open>An operation raised an exception of the \<open>LucjanApiError\<close> hierarchy.\<close>

definition raises_api_error :: "(exn + 'a) \<times> event list \<Rightarrow> bool" where
  "raises_api_error r = (case fst r of Inl e \<Rightarrow> is_api_error e | Inr _ \<Rightarrow> False)"

text \<open>A client with a session, and a device that answers every request with status 500.\<close>

definition api0 :: LucjanApi where
  "api0 = \<lparr> host = str ''boiler'', session = True, base_url = str ''http://boiler'',
            auth = Some (str ''admin'', str ''admin'') \<rparr>"

definition dev500 :: device where
  "dev500 tr = Resp \<lparr> status = 500, body = None \<rparr>"

text \<open>
  A device that answers every request with status 200 and the given text, and the
  configuration text of the specification's parsing example.
\<close>

definition dev_serving :: "pystr \<Rightarrow> device" where
  "dev_serving text tr = Resp \<lparr> status = 200, body = Some text \<rparr>"

definition config_example :: pystr where
  "config_example =
     str ''# comment'' @ [LF] @ str ''PIEC_ZADANA = 55'' @ [LF] @ str ''CO_TRYB=ZIMA # note'' @ [LF]"

text \<open>A configuration text in which the key \<open>A\<close> occurs on two lines.\<close>

definition config_dup :: pystr where
  "config_dup = str ''A=1'' @ [LF] @ str ''B = 2'' @ [LF] @ str ''A = 3 # last'' @ [LF]"

text \<open>
  A status value is negative, or is not a number, for \<open>_safe_positive\<close>: an
  \<open>int\<close> or \<open>float\<close> below zero or a string that Python reads as one; \<open>null\<close>, a
  string that is no number, a list or a dictionary.
\<close>

fun json_negative :: "(pystr \<Rightarrow> pyfloat option) \<Rightarrow> json \<Rightarrow> bool" where
  "json_negative parse_float (JInt n) = (n < 0)"
| "json_negative parse_float (JFloat x) = flt x (Fin 0)"
| "json_negative parse_float (JStr s) =
     (case parse_float s of None \<Rightarrow> False | Some x \<Rightarrow> flt x (Fin 0))"
| "json_negative parse_float _ = False"

fun json_non_numeric :: "(pystr \<Rightarrow> pyfloat option) \<Rightarrow> json \<Rightarrow> bool" where
  "json_non_numeric parse_float JNull = True"
| "json_non_numeric parse_float (JStr s) = (parse_float s = None)"
| "json_non_numeric parse_float (JArr _) = True"
| "json_non_numeric parse_float (JObj _) = True"
| "json_non_numeric parse_float _ = False"

text \<open>The status keys of the sensors that may be absent, each with its snapshot field.\<close>

definition sensor_absent_fields :: "(pystr \<times> (LucjanData \<Rightarrow> pyfloat option)) list" where
  "sensor_absent_fields =
     [(str ''podcm'', hopper_cm),
      (str ''podcmp'', hopper_percent_raw),
      (str ''podczzas'', feeder_time_remaining_s),
      (str ''podczdo'', feeder_time_total_s),
      (str ''podgmin'', feeder_g_per_min)]"

text \<open>
  A status like the one in the docstring of \<open>LucjanData\<close>, with two temperature
  entries; string parsers that accept nothing and a rendering that is not used; the
  snapshot built from that status and an empty configuration; a decoder that yields
  that status; a device that serves the status but answers every other request with
  status 404.
\<close>

definition thermos_example :: "(pystr \<times> json) list" where
  "thermos_example =
     [(str ''thermos'', JArr [JObj [(str ''t'', JFloat (Fin (105 / 2)))],
                              JObj [(str ''t'', JFloat (Fin 38))]]),
      (str ''wen0'', JInt 41), (str ''wen1'', JInt 41),
      (str ''podcm'', JInt (- 1)), (str ''podcmp'', JInt (- 1)),
      (str ''podcz'', JInt 4165), (str ''podczzas'', JInt 0),
      (str ''podczdo'', JInt 41538), (str ''podgmin'', JInt 260),
      (str ''pod'', JInt 0), (str ''co'', JInt 1), (str ''cwu1'', JInt 0),
      (str ''cwu2'', JInt 0), (str ''cyrk'', JInt 0), (str ''ter'', JInt 0),
      (str ''al'', JInt 0), (str ''time'', JInt 83198),
      (str ''ver'', JStr (str ''0.1.0.130.35''))]"

definition no_float :: "pystr \<Rightarrow> pyfloat option" where
  "no_float s = None"

definition no_int :: "pystr \<Rightarrow> int option" where
  "no_int s = None"

definition render_empty :: "json \<Rightarrow> pystr" where
  "render_empty v = []"

definition data_example :: LucjanData where
  "data_example =
         \<lparr> raw_thermos = thermos_example,
           raw_config = Map.empty,
           temperatures =
             [(str ''tPIEC'', Some (Fin (105 / 2))),
              (str ''tPOWROT'', Some (Fin 38)),
              (str ''tPODAJNIK'', None),
              (str ''tZEW'', None),
              (str ''tWEW'', None),
              (str ''tCWU'', None),
              (str ''tPODLOGA'', None),
              (str ''tSPALINY'', None),
              (str ''tT1'', None),
              (str ''tT2'', None),
              (str ''tT3'', None),
              (str ''tT4'', None),
              (str ''tT5'', None),
              (str ''tT6'', None),
              (str ''tT7'', None),
              (str ''tT8'', None)],
           pump_co = True,
           pump_cwu1 = False,
           pump_cwu2 = False,
           circulation = False,
           feeder = False,
           thermostat = False,
           alarm = False,
           fan_power = Some (Fin 41),
           fan_modulation = Some (Fin 41),
           feeder_time_s = Some (Fin 4165),
           feeder_time_remaining_s = Some (Fin 0),
           feeder_time_total_s = Some (Fin 41538),
           feeder_g_per_min = Some (Fin 260),
           hopper_cm = None,
           hopper_percent_raw = None,
           firmware_version = str ''0.1.0.130.35'',
           uptime_seconds = Some 83198,
           target_temp_co = None,
           target_temp_cwu = None,
           boiler_mode = str ''unknown'',
           co_mode = str ''unknown'',
           cwu_mode = str ''unknown'',
           algorithm = str ''unknown'',
           piec_t_max = None,
           piec_t_min = None,
           co_algorytm = str ''unknown'',
           cwu_algorytm = str ''unknown'',
           cwu_priorytet = str ''unknown'',
           cwu_histereza = None,
           cwu_t_max = None,
           piec_histereza_raw = None,
           zawor4d_tryb = str ''unknown'',
           zawor4d_zadana = None,
           zawor4d_czujnik = str ''unknown'',
           zawor4d_histereza_raw = None,
           zawor4d_preset = None,
           cyrkulacja_algorytm = str ''unknown'',
           cyrkulacja_tmin = None,
           autolato_temp = None,
           autolato_twew = None,
           autolato_histereza_raw = None \<rparr>"




section \<open>Facts about the string operations\<close>

lemma splitlines_Nil [simp]: "splitlines [] = []"
  by (simp add: splitlines.simps)

lemma splitlines_break:
  "is_linebreak c \<Longrightarrow>
   splitlines (c # cs) = [] # splitlines (if c = CR \<and> cs \<noteq> [] \<and> hd cs = LF then tl cs else cs)"
  using splitlines.simps [of "c # cs"] by (auto split: list.splits)

lemma splitlines_nobreak:
  assumes "\<not> is_linebreak c"
  shows "splitlines (c # cs) = (case splitlines cs of [] \<Rightarrow> [[c]] | l # ls \<Rightarrow> (c # l) # ls)"
proof (cases cs)
  case Nil
  then show ?thesis using assms splitlines.simps [of "[c]"] by simp
next
  case (Cons d ds)
  have 1: "splitlines (c # cs) = (c # takeWhile (\<lambda>c. \<not> is_linebreak c) cs) #
           (case dropWhile (\<lambda>c. \<not> is_linebreak c) cs of
              [] \<Rightarrow> []
            | c # cs \<Rightarrow>
                (case cs of
                   [] \<Rightarrow> []
                 | d # ds \<Rightarrow> if c = CR \<and> d = LF then splitlines ds else splitlines cs))"
    using assms splitlines.simps [of "c # cs"] by simp
  have 2: "splitlines cs = takeWhile (\<lambda>c. \<not> is_linebreak c) cs #
           (case dropWhile (\<lambda>c. \<not> is_linebreak c) cs of
              [] \<Rightarrow> []
            | c # cs \<Rightarrow>
                (case cs of
                   [] \<Rightarrow> []
                 | d # ds \<Rightarrow> if c = CR \<and> d = LF then splitlines ds else splitlines cs))"
    using Cons splitlines.simps [of cs] by simp
  show ?thesis unfolding 1 2 by simp
qed

lemma splitlines_Cons:
  "splitlines (c # cs) =
     (if is_linebreak c
      then [] # splitlines (if c = CR \<and> cs \<noteq> [] \<and> hd cs = LF then tl cs else cs)
      else (case splitlines cs of [] \<Rightarrow> [[c]] | l # ls \<Rightarrow> (c # l) # ls))"
  by (simp add: splitlines_break splitlines_nobreak)

lemma splitlines_eq_Nil [simp]: "splitlines s = [] \<longleftrightarrow> s = []"
  by (cases s) (auto simp: splitlines_Cons split: list.splits)

lemma is_linebreak_LF [simp]: "is_linebreak LF" "LF \<noteq> CR"
  by (simp_all add: is_linebreak_def LF_def CR_def)

lemma splitlines_no_break_all:
  "\<forall>l\<in>set (splitlines s). \<forall>c\<in>set l. \<not> is_linebreak c"
proof (induction s rule: length_induct)
  case (1 s)
  show ?case
  proof (cases s)
    case Nil
    then show ?thesis by simp
  next
    case (Cons d ds)
    show ?thesis
    proof (cases "is_linebreak d")
      case True
      let ?r = "if d = CR \<and> ds \<noteq> [] \<and> hd ds = LF then tl ds else ds"
      have len: "length ?r < length s" using Cons by (cases ds) auto
      have "splitlines s = [] # splitlines ?r"
        using Cons True splitlines_break [of d ds] by simp
      with 1[rule_format, OF len] show ?thesis by simp
    next
      case False
      have len: "length ds < length s" using Cons by simp
      have "splitlines s = (case splitlines ds of [] \<Rightarrow> [[d]] | l # ls \<Rightarrow> (d # l) # ls)"
        using Cons False by (simp add: splitlines_nobreak)
      with 1[rule_format, OF len] False show ?thesis
        by (auto split: list.splits)
    qed
  qed
qed

lemma splitlines_no_break:
  "l \<in> set (splitlines s) \<Longrightarrow> c \<in> set l \<Longrightarrow> \<not> is_linebreak c"
  using splitlines_no_break_all by blast

lemma splitlines_line_LF:
  "\<forall>c\<in>set l. \<not> is_linebreak c \<Longrightarrow> splitlines (l @ LF # s) = l # splitlines s"
  by (induction l) (auto simp: splitlines_break splitlines_nobreak)

lemma splitlines_append_LF:
  "splitlines (a @ LF # s) = splitlines (a @ [LF]) @ splitlines s"
proof (induction a rule: length_induct)
  case (1 a)
  show ?case
  proof (cases a)
    case Nil
    then show ?thesis by (simp add: splitlines_break)
  next
    case (Cons c cs)
    show ?thesis
    proof (cases "is_linebreak c")
      case False
      have len: "length cs < length a" using Cons by simp
      have ne: "splitlines (cs @ [LF]) \<noteq> []" by simp
      show ?thesis using Cons False 1[rule_format, OF len] ne
        by (auto simp: splitlines_nobreak split: list.splits)
    next
      case True
      show ?thesis
      proof (cases "c = CR \<and> cs @ LF # s \<noteq> [] \<and> hd (cs @ LF # s) = LF")
        case False
        have len: "length cs < length a" using Cons by simp
        from False have F2: "\<not> (c = CR \<and> cs @ [LF] \<noteq> [] \<and> hd (cs @ [LF]) = LF)"
          by (cases cs) auto
        show ?thesis using Cons True False F2 1[rule_format, OF len]
          by (auto simp: splitlines_break)
      next
        case T: True
        show ?thesis
        proof (cases cs)
          case Nil
          with T Cons True show ?thesis by (simp add: splitlines_break)
        next
          case (Cons d ds)
          have len: "length ds < length a" using Cons \<open>a = c # cs\<close> by simp
          from T Cons have d: "d = LF" by simp
          show ?thesis using \<open>a = c # cs\<close> Cons True T d 1[rule_format, OF len]
            by (simp add: splitlines_break)
        qed
      qed
    qed
  qed
qed

text \<open>Unfolding rules that evaluate the string operations on a concrete text.\<close>

lemmas string_eval =
  str_def LF_def CR_def EQ_def HASH_def SP_def is_space_def is_linebreak_def splitlines_Cons
  strip_def lstrip_def rstrip_def startswith_def partition1_def index1_def new_line_def Let_def
  replace_config_param_def parse_config_def parse_line_def

section \<open>The write operations\<close>

lemmas io_eval =
  except_api_def bind_io_def return_io_def raise_io_def sleep_def
  LucjanApi_get_def LucjanApi_put_def response_text_def async_get_config_raw_def
  ENDPOINT_CONFIG_def ENDPOINT_THERMOS_def

lemma except_api_bool:
  "fst (except_api (bind_io m (\<lambda>_. return_io True)) (\<lambda>err. return_io False) tr) =
     (case fst (m tr) of
        Inl e \<Rightarrow> if is_api_error e then Inr False else Inl e
      | Inr r \<Rightarrow> Inr True)"
  by (simp add: except_api_def bind_io_def return_io_def split: prod.splits sum.splits)

lemma except_api_no_api_error:
  "except_api m (\<lambda>err. return_io b) tr = (Inl e, tr') \<Longrightarrow> \<not> is_api_error e"
  by (auto simp: except_api_def return_io_def split: prod.splits sum.splits if_splits)

lemma set_config_param_no_api_error:
  "async_set_config_param api dev param value tr = (Inl e, tr') \<Longrightarrow> \<not> is_api_error e"
  unfolding async_set_config_param_def by (rule except_api_no_api_error)

text \<open>
  Whatever the device does, \<open>async_set_co_circuit\<close> never returns \<open>False\<close>: the steps
  return their failure as a value, which the sequence drops, so its handler is never
  entered.
\<close>

lemma set_co_circuit_never_False:
  "fst (async_set_co_circuit api dev enabled tr) \<noteq> Inr False"
proof
  assume a: "fst (async_set_co_circuit api dev enabled tr) = Inr False"
  let ?m = "bind_io (async_set_config_param api dev (str ''PIEC_TRYB'') (str ''RECZNY'')) (\<lambda>_.
         bind_io (sleep 1000) (\<lambda>_.
         bind_io (async_set_config_param api dev (str ''CO_TRYB'')
                    (if enabled then str ''ZIMA'' else str ''ZIM'')) (\<lambda>_.
         bind_io (sleep 1000) (\<lambda>_.
         bind_io (async_set_config_param api dev (str ''PIEC_TRYB'') (str ''AUTO'')) (\<lambda>_.
         return_io True)))))"
  have noapi: "\<not> is_api_error e" if "fst (?m tr) = Inl e" for e
    using that
    by (auto simp: bind_io_def sleep_def return_io_def split: prod.splits sum.splits
        dest: set_config_param_no_api_error)
  have notfalse: "fst (?m tr) \<noteq> Inr False"
    by (auto simp: bind_io_def sleep_def return_io_def split: prod.splits sum.splits)
  from a noapi notfalse show False
    by (auto simp: async_set_co_circuit_def Let_def except_api_def [of ?m]
        split: prod.splits sum.splits if_splits)
qed

text \<open>
  C1. \<open>async_set_co_circuit\<close> should return true only if its three steps succeed, and
  on a failure restore automatic mode and return false. Against a device that answers
  every request with status 500 each of the three steps fails (the step alone returns
  \<open>False\<close>), yet the sequence returns \<open>True\<close>; its events are the three fetches of the
  configuration and the two sleeps, with no further recovery request.
\<close>

theorem set_co_circuit_true_when_every_step_fails:
  "fst (async_set_config_param api0 dev500 (str ''PIEC_TRYB'') (str ''RECZNY'') []) = Inr False
   \<and> fst (async_set_config_param api0 dev500 (str ''CO_TRYB'') (str ''ZIMA'') []) = Inr False
   \<and> fst (async_set_config_param api0 dev500 (str ''PIEC_TRYB'') (str ''AUTO'') []) = Inr False
   \<and> async_set_co_circuit api0 dev500 True [] =
       (Inr True,
        [Get (str ''http://boiler/config.txt''), Sleep 1000,
         Get (str ''http://boiler/config.txt''), Sleep 1000,
         Get (str ''http://boiler/config.txt'')])"
  by (simp add: async_set_co_circuit_def async_set_config_param_def io_eval api0_def
      dev500_def str_def)

text \<open>
  C9. \<open>async_set_variable\<close> and the four system commands never raise an exception of
  the \<open>LucjanApiError\<close> hierarchy: when their request raises one the result is
  \<open>False\<close>, when the request succeeds the result is \<open>True\<close>, and only an exception
  outside the hierarchy passes through.
\<close>

theorem write_operations_catch_api_errors:
  "\<not> raises_api_error (async_set_variable api dev name value tr)
   \<and> \<not> raises_api_error (async_alarm_reset api dev tr)
   \<and> \<not> raises_api_error (async_config_reload api dev tr)
   \<and> \<not> raises_api_error (async_hopper_full api dev tr)
   \<and> \<not> raises_api_error (async_reset_controller api dev tr)
   \<and> fst (async_set_variable api dev name value tr) =
       (case fst (LucjanApi_get api dev (str ''/set'' @ name @ str ''='' @ value) tr) of
          Inl e \<Rightarrow> if is_api_error e then Inr False else Inl e
        | Inr r \<Rightarrow> Inr True)
   \<and> fst (async_alarm_reset api dev tr) =
       (case fst (LucjanApi_get api dev (str ''/alarmreset'') tr) of
          Inl e \<Rightarrow> if is_api_error e then Inr False else Inl e
        | Inr r \<Rightarrow> Inr True)
   \<and> fst (async_config_reload api dev tr) =
       (case fst (LucjanApi_get api dev (str ''/configreload'') tr) of
          Inl e \<Rightarrow> if is_api_error e then Inr False else Inl e
        | Inr r \<Rightarrow> Inr True)
   \<and> fst (async_hopper_full api dev tr) =
       (case fst (LucjanApi_get api dev (str ''/zasobnikfull'') tr) of
          Inl e \<Rightarrow> if is_api_error e then Inr False else Inl e
        | Inr r \<Rightarrow> Inr True)
   \<and> fst (async_reset_controller api dev tr) =
       (case fst (LucjanApi_get api dev (str ''/reset'') tr) of
          Inl e \<Rightarrow> if is_api_error e then Inr False else Inl e
        | Inr r \<Rightarrow> Inr True)"
  unfolding raises_api_error_def async_set_variable_def async_alarm_reset_def
    async_config_reload_def async_hopper_full_def async_reset_controller_def except_api_bool
  by (auto split: sum.splits)

theorem write_operations_catch_api_errors_witness:
  "fst (LucjanApi_get api0 dev500 (str ''/setPIEC_ZADANA=60'') []) = Inl LucjanApiError
   \<and> async_set_variable api0 dev500 (str ''PIEC_ZADANA'') (str ''60'') [] =
       (Inr False, [Get (str ''http://boiler/setPIEC_ZADANA=60'')])
   \<and> \<not> raises_api_error (async_alarm_reset api0 dev500 [])"
  using write_operations_catch_api_errors [of api0 dev500 "str ''PIEC_ZADANA''" "str ''60''" "[]"]
  by (simp add: async_set_variable_def io_eval api0_def dev500_def str_def)

section \<open>Replacing a parameter in the configuration text\<close>

lemma replace_loop_step:
  "replace_loop (line # rest) param v =
     (if is_param_line param line then Some (new_line line param v # rest)
      else map_option (Cons line) (replace_loop rest param v))"
  by (simp add: is_param_line_def partition1_def Let_def)

lemma replace_loop_None_iff:
  "replace_loop ls param v = None \<longleftrightarrow> \<not> list_ex (is_param_line param) ls"
  by (induction ls) (simp_all add: replace_loop_step del: replace_loop.simps(2))

lemma replace_loop_Some:
  "list_ex (is_param_line param) ls \<Longrightarrow>
   \<exists>pre line post. ls = pre @ line # post \<and> \<not> list_ex (is_param_line param) pre
      \<and> is_param_line param line
      \<and> replace_loop ls param v = Some (pre @ new_line line param v # post)"
proof (induction ls)
  case Nil
  then show ?case by simp
next
  case (Cons l ls)
  show ?case
  proof (cases "is_param_line param l")
    case True
    then have "l # ls = [] @ l # ls \<and> \<not> list_ex (is_param_line param) []
      \<and> is_param_line param l
      \<and> replace_loop (l # ls) param v = Some ([] @ new_line l param v # ls)"
      by (simp add: replace_loop_step del: replace_loop.simps)
    then show ?thesis by blast
  next
    case False
    with Cons.prems have "list_ex (is_param_line param) ls" by simp
    from Cons.IH [OF this] obtain pre line post where
      h: "ls = pre @ line # post" "\<not> list_ex (is_param_line param) pre"
         "is_param_line param line"
         "replace_loop ls param v = Some (pre @ new_line line param v # post)"
      by blast
    with False have "l # ls = (l # pre) @ line # post \<and> \<not> list_ex (is_param_line param) (l # pre)
      \<and> is_param_line param line
      \<and> replace_loop (l # ls) param v = Some ((l # pre) @ new_line line param v # post)"
      by (simp add: replace_loop_step del: replace_loop.simps)
    then show ?thesis by blast
  qed
qed

lemma contains_iff: "contains s p \<longleftrightarrow> (\<exists>a b. s = a @ p @ b)"
proof (induction s)
  case Nil
  then show ?case by simp
next
  case (Cons c cs)
  have sw: "startswith (c # cs) p \<longleftrightarrow> (\<exists>b. c # cs = p @ b)"
    unfolding startswith_def
    by (metis append_eq_conv_conj append_take_drop_id)
  show ?case
  proof
    assume "contains (c # cs) p"
    then consider "startswith (c # cs) p" | "contains cs p" by auto
    then show "\<exists>a b. c # cs = a @ p @ b"
    proof cases
      case 1
      with sw obtain b where "c # cs = [] @ p @ b" by auto
      then show ?thesis by blast
    next
      case 2
      with Cons.IH obtain a b where "cs = a @ p @ b" by blast
      then have "c # cs = (c # a) @ p @ b" by simp
      then show ?thesis by blast
    qed
  next
    assume "\<exists>a b. c # cs = a @ p @ b"
    then obtain a b where ab: "c # cs = a @ p @ b" by blast
    show "contains (c # cs) p"
    proof (cases a)
      case Nil
      with ab sw have "startswith (c # cs) p" by auto
      then show ?thesis by simp
    next
      case (Cons d ds)
      with ab have "cs = ds @ p @ b" by simp
      with Cons.IH have "contains cs p" by blast
      then show ?thesis by simp
    qed
  qed
qed

lemma join_lf_concat:
  "ls \<noteq> [] \<Longrightarrow> join_lf ls @ [LF] = concat (map (\<lambda>l. l @ [LF]) ls)"
  by (induction ls rule: join_lf.induct) auto

lemma splitlines_concat:
  "splitlines (concat (map (\<lambda>l. l @ [LF]) ls)) = concat (map (\<lambda>l. splitlines (l @ [LF])) ls)"
proof (induction ls)
  case Nil
  then show ?case by simp
next
  case (Cons l ls)
  have "splitlines (l @ LF # concat (map (\<lambda>l. l @ [LF]) ls))
        = splitlines (l @ [LF]) @ splitlines (concat (map (\<lambda>l. l @ [LF]) ls))"
    by (rule splitlines_append_LF)
  with Cons show ?case by simp
qed

lemma splitlines_single: "\<forall>c\<in>set l. \<not> is_linebreak c \<Longrightarrow> splitlines (l @ [LF]) = [l]"
  using splitlines_line_LF [of l "[]"] by simp

lemma splitlines_lines:
  "\<forall>l\<in>set ls. \<forall>c\<in>set l. \<not> is_linebreak c \<Longrightarrow>
   concat (map (\<lambda>l. splitlines (l @ [LF])) ls) = ls"
  by (induction ls) (simp_all add: splitlines_single)

lemma set_strip_subset: "set (strip s) \<subseteq> set s"
  unfolding strip_def rstrip_def lstrip_def
  by (metis set_rev set_dropWhileD subsetI)

lemma param_line_chars:
  assumes "is_param_line param line"
  shows "set param \<subseteq> set line"
proof -
  from assms have p: "param = strip (takeWhile (\<lambda>c. c \<noteq> EQ) (strip line))"
    by (simp add: is_param_line_def Let_def)
  have "set param \<subseteq> set (takeWhile (\<lambda>c. c \<noteq> EQ) (strip line))"
    unfolding p by (rule set_strip_subset)
  also have "\<dots> \<subseteq> set (strip line)" by (auto dest: set_takeWhileD)
  also have "\<dots> \<subseteq> set line" by (rule set_strip_subset)
  finally show ?thesis .
qed

text \<open>
  C2 (as amended). When the parameter occurs as a non-comment \<open>key=value\<close> line,
  \<open>_replace_config_param\<close> replaces the first such line, as a whole, by
  \<open>KEY = VALUE\<close> if the line contained \<open>" = "\<close> and by \<open>KEY=VALUE\<close> otherwise; the
  other lines keep their content and order, and the result is the lines joined by
  \<open>"\n"\<close> with a final \<open>"\n"\<close>. When the new value has no line break, the lines of
  the result are exactly the old lines with that one line replaced.
\<close>

theorem replace_config_param_rewrites_first_param_line:
  assumes "param_occurs param text"
  shows "\<exists>pre line post.
           splitlines text = pre @ line # post
           \<and> \<not> list_ex (is_param_line param) pre
           \<and> is_param_line param line
           \<and> replace_config_param text param new_value =
               Some (join_lf (pre @
                       (param @ (if contains line (str '' = '') then str '' = '' else str ''='')
                          @ new_value) # post) @ [LF])
           \<and> ((\<forall>c\<in>set new_value. \<not> is_linebreak c) \<longrightarrow>
                (\<forall>new_text. replace_config_param text param new_value = Some new_text \<longrightarrow>
                   splitlines new_text =
                     pre @ (param @ (if contains line (str '' = '') then str '' = '' else str ''='')
                          @ new_value) # post))"
proof -
  from assms have "list_ex (is_param_line param) (splitlines text)"
    by (simp add: param_occurs_def)
  from replace_loop_Some [OF this, of new_value] obtain pre line post where
    h: "splitlines text = pre @ line # post" "\<not> list_ex (is_param_line param) pre"
       "is_param_line param line"
       "replace_loop (splitlines text) param new_value
          = Some (pre @ new_line line param new_value # post)"
    by blast
  let ?nl = "param @ (if contains line (str '' = '') then str '' = '' else str ''='') @ new_value"
  have nl: "new_line line param new_value = ?nl" by (simp add: new_line_def)
  have r: "replace_config_param text param new_value = Some (join_lf (pre @ ?nl # post) @ [LF])"
    using h(4) nl by (simp add: replace_config_param_def)
  have lines: "splitlines (join_lf (pre @ ?nl # post) @ [LF]) = pre @ ?nl # post"
    if nv: "\<forall>c\<in>set new_value. \<not> is_linebreak c"
  proof -
    have old: "\<forall>l\<in>set (pre @ line # post). \<forall>c\<in>set l. \<not> is_linebreak c"
      using splitlines_no_break_all [of "text"] h(1) by simp
    have "set param \<subseteq> set line" using h(3) by (rule param_line_chars)
    with old have "\<forall>c\<in>set param. \<not> is_linebreak c" by auto
    with nv have "\<forall>c\<in>set ?nl. \<not> is_linebreak c"
      by (auto simp: str_def is_linebreak_def)
    with old have all: "\<forall>l\<in>set (pre @ ?nl # post). \<forall>c\<in>set l. \<not> is_linebreak c"
      by auto
    have "join_lf (pre @ ?nl # post) @ [LF] = concat (map (\<lambda>l. l @ [LF]) (pre @ ?nl # post))"
      by (rule join_lf_concat) simp
    then show ?thesis
      using splitlines_lines [OF all] by (simp only: splitlines_concat)
  qed
  from h(1,2,3) r lines show ?thesis by (intro exI conjI) auto
qed

lemma get_config_raw_ok:
  assumes "session api"
    and "dev (tr @ [Get (base_url api @ ENDPOINT_CONFIG)]) = Resp \<lparr> status = 200, body = Some text \<rparr>"
  shows "async_get_config_raw api dev tr = (Inr text, tr @ [Get (base_url api @ ENDPOINT_CONFIG)])"
  using assms
  by (simp add: async_get_config_raw_def bind_io_def LucjanApi_get_def response_text_def
      return_io_def Let_def)

text \<open>
  C3. When the device serves a configuration text in which the parameter does not occur
  as a non-comment \<open>key=value\<close> line, \<open>async_set_config_param\<close> returns \<open>False\<close> and
  the only event is the fetch of the configuration: no upload and no reload.
\<close>

theorem set_config_param_absent_key_no_upload:
  assumes "session api"
    and "dev (tr @ [Get (base_url api @ ENDPOINT_CONFIG)]) = Resp \<lparr> status = 200, body = Some text \<rparr>"
    and "\<not> param_occurs param text"
  shows "async_set_config_param api dev param value tr =
           (Inr False, tr @ [Get (base_url api @ ENDPOINT_CONFIG)])"
proof -
  from assms(3) have "replace_loop (splitlines text) param value = None"
    by (simp add: param_occurs_def replace_loop_None_iff)
  then have "replace_config_param text param value = None"
    by (simp add: replace_config_param_def)
  with get_config_raw_ok [of api dev tr "text", OF assms(1,2)] show ?thesis
    by (simp add: async_set_config_param_def except_api_def bind_io_def return_io_def)
qed

theorem set_config_param_absent_key_no_upload_witness:
  "session api0
   \<and> dev_serving config_example ([] @ [Get (base_url api0 @ ENDPOINT_CONFIG)])
       = Resp \<lparr> status = 200, body = Some config_example \<rparr>
   \<and> \<not> param_occurs (str ''PIEC_TRYB'') config_example
   \<and> async_set_config_param api0 (dev_serving config_example) (str ''PIEC_TRYB'') (str ''AUTO'') []
       = (Inr False, [Get (str ''http://boiler/config.txt'')])"
proof -
  have 1: "session api0" by (simp add: api0_def)
  have 2: "dev_serving config_example ([] @ [Get (base_url api0 @ ENDPOINT_CONFIG)])
       = Resp \<lparr> status = 200, body = Some config_example \<rparr>"
    by (simp add: dev_serving_def)
  have 3: "\<not> param_occurs (str ''PIEC_TRYB'') config_example"
    by (simp add: param_occurs_def is_param_line_def config_example_def string_eval)
  from set_config_param_absent_key_no_upload
         [of api0 "dev_serving config_example" "[]" config_example "str ''PIEC_TRYB''"
             "str ''AUTO''", OF 1 2 3] 1 2 3
  show ?thesis by (simp add: api0_def ENDPOINT_CONFIG_def str_def)
qed

theorem replace_config_param_rewrites_first_param_line_witness:
  "param_occurs (str ''PIEC_ZADANA'') config_example
   \<and> replace_config_param config_example (str ''PIEC_ZADANA'') (str ''60'') =
       Some (str ''# comment'' @ [LF] @ str ''PIEC_ZADANA = 60'' @ [LF]
             @ str ''CO_TRYB=ZIMA # note'' @ [LF])"
proof -
  have 1: "param_occurs (str ''PIEC_ZADANA'') config_example"
    by (simp add: param_occurs_def is_param_line_def config_example_def string_eval)
  from replace_config_param_rewrites_first_param_line [OF 1, of "str ''60''"]
  have "replace_config_param config_example (str ''PIEC_ZADANA'') (str ''60'') \<noteq> None"
    by auto
  then show ?thesis using 1 by (simp add: config_example_def string_eval)
qed

text \<open>
  C2 as stated fails: the rewritten line loses its inline comment (more than the value
  is replaced), and a text with \<open>\r\n\<close> line ends comes back with \<open>\n\<close> line ends, so the
  other lines are not kept byte for byte.
\<close>

theorem replace_config_param_not_bytewise:
  "replace_config_param (str ''A = 1 # keep'' @ [LF] @ str ''B=2'' @ [LF]) (str ''A'') (str ''9'')
     = Some (str ''A = 9'' @ [LF] @ str ''B=2'' @ [LF])
   \<and> replace_config_param (str ''A = 1 # keep'' @ [LF] @ str ''B=2'' @ [LF]) (str ''A'') (str ''9'')
     \<noteq> Some (str ''A = 9 # keep'' @ [LF] @ str ''B=2'' @ [LF])
   \<and> replace_config_param (str ''A=1'' @ [CR, LF] @ str ''B=2'' @ [CR, LF]) (str ''A'') (str ''9'')
     = Some (str ''A=9'' @ [LF] @ str ''B=2'' @ [LF])
   \<and> replace_config_param (str ''A=1'' @ [CR, LF] @ str ''B=2'' @ [CR, LF]) (str ''A'') (str ''9'')
     \<noteq> Some (str ''A=9'' @ [CR, LF] @ str ''B=2'' @ [CR, LF])"
  by (simp add: string_eval)

section \<open>Parsing the configuration text\<close>

lemma dropWhile_snoc_keep: "\<not> P a \<Longrightarrow> dropWhile P (xs @ [a]) = dropWhile P xs @ [a]"
  by (induction xs) auto

lemma rstrip_Cons_nonspace: "\<not> is_space a \<Longrightarrow> rstrip (a # xs) = a # rstrip xs"
  by (simp add: rstrip_def dropWhile_snoc_keep)

lemma strip_Cons_nonspace: "\<not> is_space a \<Longrightarrow> strip (a # xs) = a # rstrip xs"
  by (simp add: strip_def lstrip_def rstrip_Cons_nonspace)

lemma strip_head:
  assumes "strip s \<noteq> []"
  shows "\<not> is_space (hd (strip s))"
proof (cases "lstrip s")
  case Nil
  with assms show ?thesis by (simp add: strip_def rstrip_def)
next
  case (Cons b bs)
  then have "\<not> is_space b" unfolding lstrip_def
    by (metis hd_dropWhile list.sel(1) list.distinct(1))
  with Cons show ?thesis by (simp add: strip_def rstrip_Cons_nonspace)
qed

lemma rstrip_idem: "rstrip (rstrip x) = rstrip x"
  by (simp add: rstrip_def)

lemma strip_idem: "strip (strip v) = strip v"
proof (cases "strip v")
  case Nil
  have "strip [] = []" by (simp add: strip_def lstrip_def rstrip_def)
  with Nil show ?thesis by simp
next
  case (Cons b bs)
  with strip_head [of v] have nb: "\<not> is_space b" by simp
  from Cons have r: "rstrip (lstrip v) = b # bs" by (simp add: strip_def)
  have "rstrip (b # bs) = b # bs" using rstrip_idem [of "lstrip v"] r by simp
  with nb have "rstrip bs = bs" by (simp add: rstrip_Cons_nonspace)
  with Cons nb show ?thesis by (simp add: strip_Cons_nonspace)
qed

lemma startswith_hash: "startswith s (str ''#'') \<longleftrightarrow> s \<noteq> [] \<and> hd s = HASH"
  by (cases s) (auto simp: startswith_def str_def HASH_def)

lemma is_space_HASH [simp]: "\<not> is_space HASH"
  by (simp add: is_space_def HASH_def)

lemma key_not_comment:
  assumes t: "t = strip line" and nc: "\<not> startswith t (str ''#'')"
  shows "\<not> startswith (strip (takeWhile (\<lambda>c. c \<noteq> EQ) t)) (str ''#'')"
proof (cases "takeWhile (\<lambda>c. c \<noteq> EQ) t")
  case Nil
  then show ?thesis by (simp add: strip_def lstrip_def rstrip_def startswith_hash)
next
  case (Cons a k1)
  then have tne: "t \<noteq> []" by auto
  from Cons have a: "a = hd t" by (cases t) (auto split: if_splits)
  from tne t strip_head [of line] have "\<not> is_space (hd t)" by simp
  with a have "\<not> is_space a" by simp
  then have "strip (a # k1) = a # rstrip k1" by (rule strip_Cons_nonspace)
  moreover from nc tne a have "a \<noteq> HASH" by (simp add: startswith_hash)
  ultimately show ?thesis using Cons by (simp add: startswith_hash)
qed

lemma parse_line_spec: "parse_line line = spec_entry line"
proof -
  let ?t = "strip line"
  show ?thesis
  proof (cases "startswith ?t (str ''#'')")
    case True
    then show ?thesis by (simp add: parse_line_def spec_entry_def Let_def)
  next
    case nc: False
    show ?thesis
    proof (cases "EQ \<in> set ?t")
      case False
      then show ?thesis using nc by (simp add: parse_line_def spec_entry_def Let_def)
    next
      case True
      then have ne: "?t \<noteq> []" by auto
      have k: "\<not> startswith (strip (takeWhile (\<lambda>c. c \<noteq> EQ) ?t)) (str ''#'')"
        using nc by (intro key_not_comment [of ?t line]) simp_all
      have cut: "take (length (takeWhile (\<lambda>x. x \<noteq> HASH) v)) v = takeWhile (\<lambda>x. x \<noteq> HASH) v"
        for v :: pystr
        by (simp add: takeWhile_eq_take [symmetric])
      have nohash: "takeWhile (\<lambda>x. x \<noteq> HASH) v = v" if "HASH \<notin> set v" for v :: pystr
        using that by (auto simp: takeWhile_eq_all_conv)
      note idem = strip_idem
      show ?thesis using nc True ne k
        by (simp add: parse_line_def spec_entry_def Let_def partition1_def index1_def cut nohash idem)
    qed
  qed
qed

lemma parse_loop_map_of:
  "parse_loop m ls = m ++ map_of (rev (List.map_filter parse_line ls))"
proof (induction ls arbitrary: m)
  case Nil
  then show ?case by (simp add: List.map_filter_simps)
next
  case (Cons l ls)
  show ?case
  proof (cases "parse_line l")
    case None
    with Cons show ?thesis by (simp add: List.map_filter_simps)
  next
    case (Some kv)
    obtain k v where kv: "kv = (k, v)" by (cases kv)
    have "m(k \<mapsto> v) ++ map_of (rev (List.map_filter parse_line ls))
          = m ++ (map_of [(k, v)] ++ map_of (rev (List.map_filter parse_line ls)))"
      by (simp add: map_add_assoc [symmetric] map_add_upd_left)
    with Cons Some kv show ?thesis by (simp add: List.map_filter_simps map_add_def)
  qed
qed

lemma parse_config_map_of:
  "parse_config text = map_of (rev (List.map_filter spec_entry (splitlines text)))"
proof -
  have "parse_line = spec_entry" by (rule ext) (rule parse_line_spec)
  then show ?thesis by (simp add: parse_config_def parse_loop_map_of)
qed

lemma map_filter_keys_absent:
  assumes "\<forall>l\<in>set ls. map_option fst (spec_entry l) \<noteq> Some k"
  shows "map_of (rev (List.map_filter spec_entry ls)) k = None"
proof -
  have "k \<notin> fst ` set (List.map_filter spec_entry ls)"
  proof
    assume "k \<in> fst ` set (List.map_filter spec_entry ls)"
    then obtain v where "(k, v) \<in> set (List.map_filter spec_entry ls)" by auto
    then obtain l where "l \<in> set ls" "spec_entry l = Some (k, v)"
      by (auto simp: List.map_filter_def)
    with assms show False by force
  qed
  then show ?thesis by (simp add: map_of_eq_None_iff)
qed

lemma map_of_last_entry:
  assumes "spec_entry l = Some (k, v)"
    and "\<forall>l'\<in>set post. map_option fst (spec_entry l') \<noteq> Some k"
  shows "map_of (rev (List.map_filter spec_entry (pre @ l # post))) k = Some v"
proof -
  have "List.map_filter spec_entry (pre @ l # post)
        = List.map_filter spec_entry pre @ (k, v) # List.map_filter spec_entry post"
    using assms(1) by (simp add: List.map_filter_def)
  then have "map_of (rev (List.map_filter spec_entry (pre @ l # post))) k
        = (map_of ((k, v) # rev (List.map_filter spec_entry pre))
             ++ map_of (rev (List.map_filter spec_entry post))) k"
    by (simp add: map_of_append del: map_of.simps)
  also have "\<dots> = Some v"
    using map_filter_keys_absent [OF assms(2)] by (simp add: map_add_def)
  finally show ?thesis .
qed

text \<open>
  C4. The loop body of \<open>_parse_config\<close> gives for every line the entry the
  specification describes (comment lines, lines without \<open>=\<close> and lines with an empty
  key give none; the others are split at the first \<open>=\<close>, key and value trimmed, the
  value cut at an inline \<open>#\<close>); the dictionary is the one in which the last line of a
  key decides its value, a key without a line is absent, and no input raises; the
  example text parses to its two entries.
\<close>

theorem parse_config_last_wins:
  "parse_line line = spec_entry line
   \<and> parse_config text = map_of (rev (List.map_filter spec_entry (splitlines text)))
   \<and> (\<forall>pre l post key value.
         splitlines text = pre @ l # post \<and> spec_entry l = Some (key, value)
         \<and> (\<forall>l'\<in>set post. map_option fst (spec_entry l') \<noteq> Some key)
         \<longrightarrow> parse_config text key = Some value)
   \<and> ((\<forall>l\<in>set (splitlines text). map_option fst (spec_entry l) \<noteq> Some key0)
         \<longrightarrow> parse_config text key0 = None)
   \<and> parse_config config_example =
         [str ''PIEC_ZADANA'' \<mapsto> str ''55'', str ''CO_TRYB'' \<mapsto> str ''ZIMA'']"
proof (intro conjI allI impI)
  show "parse_line line = spec_entry line" by (rule parse_line_spec)
  show "parse_config text = map_of (rev (List.map_filter spec_entry (splitlines text)))"
    by (rule parse_config_map_of)
  show "parse_config text key = Some val"
    if "splitlines text = pre @ l # post \<and> spec_entry l = Some (key, val)
         \<and> (\<forall>l'\<in>set post. map_option fst (spec_entry l') \<noteq> Some key)"
    for pre l post key val
    using that map_of_last_entry [of l key val post pre]
    by (simp add: parse_config_map_of)
  show "parse_config text key0 = None"
    if "\<forall>l\<in>set (splitlines text). map_option fst (spec_entry l) \<noteq> Some key0"
    using map_filter_keys_absent [OF that] by (simp add: parse_config_map_of)
  show "parse_config config_example =
         [str ''PIEC_ZADANA'' \<mapsto> str ''55'', str ''CO_TRYB'' \<mapsto> str ''ZIMA'']"
    by (simp add: config_example_def string_eval)
qed

theorem parse_config_last_wins_witness:
  "splitlines config_dup = [str ''A=1'', str ''B = 2''] @ str ''A = 3 # last'' # []
   \<and> spec_entry (str ''A = 3 # last'') = Some (str ''A'', str ''3'')
   \<and> parse_config config_dup (str ''A'') = Some (str ''3'')
   \<and> parse_config config_dup (str ''B'') = Some (str ''2'')
   \<and> parse_config config_dup (str ''C'') = None"
proof -
  have 1: "splitlines config_dup = [str ''A=1'', str ''B = 2''] @ str ''A = 3 # last'' # []"
    by (simp add: config_dup_def string_eval)
  have 2: "spec_entry (str ''A = 3 # last'') = Some (str ''A'', str ''3'')"
    by (simp add: spec_entry_def string_eval)
  have 3: "\<forall>l\<in>set (splitlines config_dup). map_option fst (spec_entry l) \<noteq> Some (str ''C'')"
    by (simp add: config_dup_def spec_entry_def string_eval)
  have 4: "parse_config config_dup (str ''B'') = Some (str ''2'')"
    by (simp add: config_dup_def string_eval)
  have 5: "\<forall>l'\<in>set []. map_option fst (spec_entry l') \<noteq> Some (str ''A'')"
    by simp
  note T = parse_config_last_wins [of "str ''A''" config_dup "str ''C''"]
  from T [THEN conjunct2, THEN conjunct2, THEN conjunct1, rule_format,
          of "[str ''A=1'', str ''B = 2'']" "str ''A = 3 # last''" "[]" "str ''A''" "str ''3''"]
       1 2 5
  have 6: "parse_config config_dup (str ''A'') = Some (str ''3'')"
    by blast
  from T [THEN conjunct2, THEN conjunct2, THEN conjunct2, THEN conjunct1] 3
  have 7: "parse_config config_dup (str ''C'') = None"
    by blast
  from 1 2 4 6 7 show ?thesis by (intro conjI)
qed

section \<open>Replacing a parameter that occurs more than once\<close>

lemma spec_entry_key:
  "map_option fst (spec_entry l) = Some k \<longleftrightarrow> is_param_line k l \<and> k \<noteq> []"
  by (auto simp: spec_entry_def is_param_line_def Let_def split: if_splits)

lemma parse_lines_suffix:
  assumes "map_of (rev (List.map_filter spec_entry post)) k = Some v"
  shows "map_of (rev (List.map_filter spec_entry (xs @ post))) k = Some v"
proof -
  have "List.map_filter spec_entry (xs @ post)
        = List.map_filter spec_entry xs @ List.map_filter spec_entry post"
    by (simp add: List.map_filter_def)
  then show ?thesis using assms by (simp add: map_of_append map_add_def)
qed

lemma parse_empty_key:
  "map_of (rev (List.map_filter spec_entry ls)) [] = None"
  by (rule map_filter_keys_absent) (simp only: spec_entry_key, simp)

text \<open>
  C10. When the parameter occurs as a non-comment \<open>key=value\<close> line on more than one
  line, \<open>_replace_config_param\<close> rewrites the first of them only: the lines after it,
  later occurrences included, are the same lines of the new text. \<open>_parse_config\<close>
  lets the last occurrence decide, so the parsed value of the parameter in the new text
  is what it was in the old one, the value of the last occurrence.
\<close>

theorem replace_rewrites_only_first_occurrence:
  assumes "1 < length (filter (is_param_line param) (splitlines text))"
  shows "\<exists>pre line post new_text.
           splitlines text = pre @ line # post
           \<and> \<not> list_ex (is_param_line param) pre
           \<and> is_param_line param line
           \<and> list_ex (is_param_line param) post
           \<and> replace_config_param text param new_value = Some new_text
           \<and> new_text = join_lf (pre @ new_line line param new_value # post) @ [LF]
           \<and> (\<exists>mid. splitlines new_text = pre @ mid @ post)
           \<and> parse_config new_text param = parse_config text param
           \<and> (param \<noteq> [] \<longrightarrow>
                parse_config text param =
                  map_option snd
                    (spec_entry (last (filter (is_param_line param) (splitlines text))))
                \<and> parse_config text param \<noteq> None)"
proof -
  let ?P = "is_param_line param"
  from assms have "filter ?P (splitlines text) \<noteq> []" by auto
  then have ex: "list_ex ?P (splitlines text)"
    by (auto simp: list_ex_iff filter_empty_conv)
  from replace_loop_Some [OF ex, of new_value] obtain pre line post where
    h: "splitlines text = pre @ line # post" "\<not> list_ex ?P pre" "?P line"
       "replace_loop (splitlines text) param new_value
          = Some (pre @ new_line line param new_value # post)"
    by blast
  let ?nl = "new_line line param new_value"
  let ?new = "join_lf (pre @ ?nl # post) @ [LF]"
  have r: "replace_config_param text param new_value = Some ?new"
    using h(4) by (simp add: replace_config_param_def)
  from h(2) have fpre: "filter ?P pre = []"
    by (auto simp: list_ex_iff filter_empty_conv)
  with h(1,3) have f: "filter ?P (splitlines text) = line # filter ?P post" by simp
  with assms have fpost: "filter ?P post \<noteq> []" by auto
  then have expost: "list_ex ?P post" by (auto simp: list_ex_iff filter_empty_conv)
  then obtain p1 l2 p2 where
    p: "post = p1 @ l2 # p2" "?P l2" "\<forall>l\<in>set p2. \<not> ?P l"
    using split_list_last_prop [of post ?P] by (auto simp: list_ex_iff)
  from p(3) have fp2: "filter ?P p2 = []" by (auto simp: filter_empty_conv)
  have lastf: "last (filter ?P (splitlines text)) = l2"
    using f p(1,2) fp2 by simp
  have old: "\<forall>l\<in>set (pre @ line # post). \<forall>c\<in>set l. \<not> is_linebreak c"
    using splitlines_no_break_all [of "text"] h(1) by simp
  have nlines: "splitlines ?new = pre @ splitlines (?nl @ [LF]) @ post"
  proof -
    have "?new = concat (map (\<lambda>l. l @ [LF]) (pre @ ?nl # post))"
      by (rule join_lf_concat) simp
    then have "splitlines ?new
          = concat (map (\<lambda>l. splitlines (l @ [LF])) pre) @ splitlines (?nl @ [LF])
            @ concat (map (\<lambda>l. splitlines (l @ [LF])) post)"
      by (simp only: splitlines_concat) simp
    moreover have "concat (map (\<lambda>l. splitlines (l @ [LF])) pre) = pre"
      using old by (intro splitlines_lines) auto
    moreover have "concat (map (\<lambda>l. splitlines (l @ [LF])) post) = post"
      using old by (intro splitlines_lines) auto
    ultimately show ?thesis by simp
  qed
  have same: "parse_config ?new param = parse_config text param"
    and val: "param \<noteq> [] \<longrightarrow>
                parse_config text param = map_option snd (spec_entry l2)
                \<and> parse_config text param \<noteq> None"
  proof -
    show "parse_config ?new param = parse_config text param"
    proof (cases "param = []")
      case True
      then show ?thesis by (simp add: parse_config_map_of parse_empty_key)
    next
      case False
      with p(2) spec_entry_key [of l2 param] obtain v2 where
        v2: "spec_entry l2 = Some (param, v2)" by (cases "spec_entry l2") auto
      have absent: "\<forall>l'\<in>set p2. map_option fst (spec_entry l') \<noteq> Some param"
        using p(3) by (simp only: spec_entry_key, simp)
      have post: "map_of (rev (List.map_filter spec_entry post)) param = Some v2"
        unfolding p(1) using v2 absent by (rule map_of_last_entry)
      have "map_of (rev (List.map_filter spec_entry ((pre @ [line]) @ post))) param = Some v2"
        using post by (rule parse_lines_suffix)
      moreover have "map_of (rev (List.map_filter spec_entry
                       ((pre @ splitlines (?nl @ [LF])) @ post))) param = Some v2"
        using post by (rule parse_lines_suffix)
      ultimately show ?thesis by (simp add: parse_config_map_of nlines h(1))
    qed
    show "param \<noteq> [] \<longrightarrow>
                parse_config text param = map_option snd (spec_entry l2)
                \<and> parse_config text param \<noteq> None"
    proof
      assume ne: "param \<noteq> []"
      with p(2) spec_entry_key [of l2 param] obtain v2 where
        v2: "spec_entry l2 = Some (param, v2)" by (cases "spec_entry l2") auto
      have absent: "\<forall>l'\<in>set p2. map_option fst (spec_entry l') \<noteq> Some param"
        using p(3) by (simp only: spec_entry_key, simp)
      have post: "map_of (rev (List.map_filter spec_entry post)) param = Some v2"
        unfolding p(1) using v2 absent by (rule map_of_last_entry)
      have "map_of (rev (List.map_filter spec_entry ((pre @ [line]) @ post))) param = Some v2"
        using post by (rule parse_lines_suffix)
      then show "parse_config text param = map_option snd (spec_entry l2)
                \<and> parse_config text param \<noteq> None"
        using v2 by (simp add: parse_config_map_of h(1))
    qed
  qed
  have mid: "\<exists>mid. splitlines ?new = pre @ mid @ post" using nlines by blast
  have val': "param \<noteq> [] \<longrightarrow>
                parse_config text param =
                  map_option snd
                    (spec_entry (last (filter (is_param_line param) (splitlines text))))
                \<and> parse_config text param \<noteq> None"
    using val unfolding lastf .
  from h(1,2,3) expost r mid same val'
  show ?thesis by blast
qed

theorem replace_rewrites_only_first_occurrence_witness:
  "1 < length (filter (is_param_line (str ''A'')) (splitlines config_dup))
   \<and> replace_config_param config_dup (str ''A'') (str ''9'')
       = Some (str ''A=9'' @ [LF] @ str ''B = 2'' @ [LF] @ str ''A = 3 # last'' @ [LF])
   \<and> parse_config (str ''A=9'' @ [LF] @ str ''B = 2'' @ [LF] @ str ''A = 3 # last'' @ [LF])
        (str ''A'') = Some (str ''3'')
   \<and> parse_config config_dup (str ''A'') = Some (str ''3'')"
proof -
  have 1: "1 < length (filter (is_param_line (str ''A'')) (splitlines config_dup))"
    by (simp add: config_dup_def is_param_line_def string_eval)
  have 2: "replace_config_param config_dup (str ''A'') (str ''9'')
       = Some (str ''A=9'' @ [LF] @ str ''B = 2'' @ [LF] @ str ''A = 3 # last'' @ [LF])"
    by (simp add: config_dup_def string_eval)
  have 3: "parse_config config_dup (str ''A'') = Some (str ''3'')"
    by (simp add: config_dup_def string_eval)
  from replace_rewrites_only_first_occurrence [OF 1, of "str ''9''"] 2
  have "parse_config (str ''A=9'' @ [LF] @ str ''B = 2'' @ [LF] @ str ''A = 3 # last'' @ [LF])
        (str ''A'') = parse_config config_dup (str ''A'')"
    by auto
  with 1 2 3 show ?thesis by simp
qed

section \<open>Floats and the snapshot\<close>

subsection \<open>The exponent of a rational\<close>

lemma bitlen_bounds:
  "0 < n \<Longrightarrow> 2 ^ (bitlen n - 1) \<le> n \<and> n < 2 ^ bitlen n"
proof (induction n rule: bitlen.induct)
  case (1 n)
  show ?case
  proof (cases "n = 1")
    case True
    have "bitlen (1::int) = Suc (bitlen 0)" by (subst bitlen.simps) simp
    also have "bitlen (0::int) = 0" by (subst bitlen.simps) simp
    finally show ?thesis using True by simp
  next
    case False
    with 1(2) have pos: "0 < n div 2" by simp
    from 1(2) have nle: "\<not> n \<le> 0" by simp
    from 1(1) [OF nle pos] have IH: "2 ^ (bitlen (n div 2) - 1) \<le> n div 2"
      "n div 2 < 2 ^ bitlen (n div 2)" by simp_all
    have bl: "bitlen n = Suc (bitlen (n div 2))" using nle by (subst bitlen.simps) simp
    have b1: "0 < bitlen (n div 2)" using pos by (subst bitlen.simps) simp
    then have e: "2 ^ bitlen (n div 2) = 2 * (2::int) ^ (bitlen (n div 2) - 1)"
      by (cases "bitlen (n div 2)") simp_all
    have "2 * (n div 2) \<le> n" by simp
    with IH(1) e have lo: "2 ^ bitlen (n div 2) \<le> n" by linarith
    have "n < 2 * (n div 2) + 2" by linarith
    with IH(2) have hi: "n < 2 * 2 ^ bitlen (n div 2)" by linarith
    from lo hi show ?thesis by (simp add: bl)
  qed
qed

lemma pow2_powi: "pow2 e = 2 powi e"
  by (simp add: pow2_def power_int_def field_simps)

lemma pow2_pos [simp]: "0 < pow2 e"
  by (simp add: pow2_powi)

lemma pow2_add: "pow2 (a + b) = pow2 a * pow2 b"
  by (simp add: pow2_powi power_int_add)

lemma pow2_mono: "a \<le> b \<Longrightarrow> pow2 a \<le> pow2 b"
  by (simp add: pow2_powi power_int_increasing)

lemma pow2_nat: "pow2 (int k) = 2 ^ k"
  by (simp add: pow2_def)

lemma ilog2_bounds:
  assumes "x \<noteq> 0"
  shows "pow2 (ilog2 x) \<le> \<bar>x\<bar> \<and> \<bar>x\<bar> < pow2 (ilog2 x + 1)"
proof -
  obtain p q where pq: "quotient_of \<bar>x\<bar> = (p, q)" by (cases "quotient_of \<bar>x\<bar>")
  then have q: "0 < q" by (rule quotient_of_denom_pos)
  from pq have x: "\<bar>x\<bar> = of_int p / of_int q" by (rule quotient_of_div)
  from assms have "0 < \<bar>x\<bar>" by simp
  with x q have p: "0 < p" by (simp add: zero_less_divide_iff)
  let ?a = "bitlen p" and ?b = "bitlen q"
  let ?e = "int ?a - int ?b"
  from bitlen_bounds [OF p] have pa: "2 ^ (?a - 1) \<le> p" "p < 2 ^ ?a" by simp_all
  from bitlen_bounds [OF q] have qb: "2 ^ (?b - 1) \<le> q" "q < 2 ^ ?b" by simp_all
  have a1: "0 < ?a" using p by (subst bitlen.simps) simp
  have b1: "0 < ?b" using q by (subst bitlen.simps) simp
  have pr: "(2::rat) ^ (?a - 1) \<le> of_int p" "(of_int p :: rat) < 2 ^ ?a"
    using pa by (metis of_int_le_iff of_int_numeral of_int_power,
                 metis of_int_less_iff of_int_numeral of_int_power)
  have qr: "(2::rat) ^ (?b - 1) \<le> of_int q" "(of_int q :: rat) < 2 ^ ?b"
    using qb by (metis of_int_le_iff of_int_numeral of_int_power,
                 metis of_int_less_iff of_int_numeral of_int_power)
  have qpos: "(0::rat) < of_int q" using q by simp
  have ppos: "(0::rat) < of_int p" using p by simp
  have hi: "\<bar>x\<bar> < pow2 (?e + 1)"
  proof -
    have "?e + 1 = int ?a + (- int (?b - 1))" using b1 by linarith
    then have "pow2 (?e + 1) = pow2 (int ?a) * pow2 (- int (?b - 1))"
      by (simp only: pow2_add)
    also have "\<dots> = 2 ^ ?a / 2 ^ (?b - 1)"
      by (simp add: pow2_powi power_int_minus field_simps)
    finally have e: "pow2 (?e + 1) = 2 ^ ?a / 2 ^ (?b - 1)" .
    have "of_int p / of_int q < (2::rat) ^ ?a / of_int q"
      using pr(2) qpos by (simp add: divide_strict_right_mono)
    also have "\<dots> \<le> 2 ^ ?a / 2 ^ (?b - 1)"
      using qr(1) by (simp add: frac_le)
    finally show ?thesis using x e by simp
  qed
  have lo: "pow2 (?e - 1) \<le> \<bar>x\<bar>"
  proof -
    have "?e - 1 = int (?a - 1) + (- int ?b)" using a1 by linarith
    then have "pow2 (?e - 1) = pow2 (int (?a - 1)) * pow2 (- int ?b)"
      by (simp only: pow2_add)
    also have "\<dots> = 2 ^ (?a - 1) / 2 ^ ?b"
      by (simp add: pow2_powi power_int_minus field_simps)
    finally have e: "pow2 (?e - 1) = 2 ^ (?a - 1) / 2 ^ ?b" .
    have "(2::rat) ^ (?a - 1) / 2 ^ ?b \<le> of_int p / 2 ^ ?b"
      using pr(1) by (simp add: divide_right_mono)
    also have "\<dots> \<le> of_int p / of_int q"
      using qr(2) qpos ppos by (simp add: frac_le)
    finally show ?thesis using x e by simp
  qed
  have il: "ilog2 x = (if pow2 ?e \<le> \<bar>x\<bar> then ?e else ?e - 1)"
    using pq by (simp add: ilog2_def Let_def)
  show ?thesis
  proof (cases "pow2 ?e \<le> \<bar>x\<bar>")
    case True
    with il hi show ?thesis by simp
  next
    case False
    with il lo show ?thesis by simp
  qed
qed

subsection \<open>Rounding, and the sign of a converted integer\<close>

lemma round_half_even_near:
  "\<bar>of_int (round_half_even x) - x\<bar> \<le> 1 / 2"
proof -
  define f where "f = \<lfloor>x\<rfloor>"
  define d where "d = x - of_int f"
  have d: "0 \<le> d" "d < 1" unfolding d_def f_def by linarith+
  have x: "x = of_int f + d" by (simp add: d_def)
  have r: "round_half_even x =
             (if d < 1 / 2 then f else if 1 / 2 < d then f + 1 else if even f then f else f + 1)"
    by (simp add: round_half_even_def Let_def f_def d_def)
  show ?thesis
  proof (cases "d < 1 / 2")
    case True
    with r have "round_half_even x = f" by simp
    with True d x show ?thesis by simp
  next
    case False
    show ?thesis
    proof (cases "1 / 2 < d")
      case True
      with False r have "round_half_even x = f + 1" by simp
      with True d x show ?thesis by simp
    next
      case F2: False
      with False have dh: "d = 1 / 2" by simp
      from r False F2 have "round_half_even x = f \<or> round_half_even x = f + 1" by simp
      with dh x show ?thesis by auto
    qed
  qed
qed

lemma round_half_even_neg: "x \<le> - 1 \<Longrightarrow> round_half_even x \<le> - 1"
proof -
  assume x: "x \<le> - 1"
  have "of_int (round_half_even x) \<le> x + 1 / 2"
    using round_half_even_near [of x] by linarith
  with x have "(of_int (round_half_even x) :: rat) < 0" by linarith
  then show ?thesis by simp
qed

lemma ulp_le:
  assumes "1 \<le> \<bar>x\<bar>"
  shows "pow2 (max (ilog2 x) (- 1022) - 52) \<le> \<bar>x\<bar>"
proof (cases "- 1022 \<le> ilog2 x")
  case True
  from assms have "x \<noteq> 0" by auto
  from ilog2_bounds [OF this] have "pow2 (ilog2 x) \<le> \<bar>x\<bar>" by simp
  moreover have "pow2 (ilog2 x - 52) \<le> pow2 (ilog2 x)" by (rule pow2_mono) simp
  ultimately show ?thesis using True by (simp add: max_def)
next
  case False
  have "pow2 (- 1074) \<le> pow2 0" by (rule pow2_mono) simp
  also have "pow2 0 = 1" by (simp add: pow2_def)
  finally show ?thesis using False assms by (simp add: max_def)
qed

lemma to_double_negative_int:
  assumes "n < 0"
  shows "to_double (of_int n) = NInf \<or> (\<exists>y. to_double (of_int n) = Fin y \<and> y < 0)"
proof -
  let ?x = "of_int n :: rat"
  let ?ulp = "pow2 (max (ilog2 ?x) (- 1022) - 52)"
  from assms have x: "?x \<le> - 1" "?x \<noteq> 0" "\<not> 0 < ?x"
    by (simp_all add: of_int_le_iff [of n "- 1", simplified])
  then have "1 \<le> \<bar>?x\<bar>" by simp
  from ulp_le [OF this] x(1) have "?ulp \<le> - ?x" by simp
  then have "?x / ?ulp \<le> - 1"
    by (simp add: pos_divide_le_eq)
  then have "round_half_even (?x / ?ulp) \<le> - 1" by (rule round_half_even_neg)
  then have "(of_int (round_half_even (?x / ?ulp)) :: rat) < 0" by simp
  then have "of_int (round_half_even (?x / ?ulp)) * ?ulp < 0"
    by (simp add: mult_less_0_iff)
  with x(2,3) show ?thesis by (simp add: to_double_def Let_def)
qed

subsection \<open>The conversions of status values\<close>

lemma safe_positive_cases:
  "safe_positive pf JNull = Inr None"
  "n < 0 \<Longrightarrow> safe_positive pf (JInt n) = Inr None \<or> safe_positive pf (JInt n) = Inl OverflowError"
  "json_negative pf v \<Longrightarrow> safe_positive pf v = Inr None \<or> safe_positive pf v = Inl OverflowError"
  "json_non_numeric pf v \<Longrightarrow> safe_positive pf v = Inr None"
  "safe_positive pf v = Inr (Some x) \<Longrightarrow> \<not> flt x (Fin 0)"
  "safe_positive pf (JInt 0) = Inr (Some (Fin 0))"
  "safe_positive pf (JFloat (Fin 0)) = Inr (Some (Fin 0))"
proof -
  show "safe_positive pf JNull = Inr None" by (simp add: safe_positive_def safe_float_def)
  show n: "safe_positive pf (JInt n) = Inr None \<or> safe_positive pf (JInt n) = Inl OverflowError"
    if "n < 0" for n
    using to_double_negative_int [OF that]
    by (auto simp: safe_positive_def safe_float_def float_of_int_def)
  show "safe_positive pf v = Inr None \<or> safe_positive pf v = Inl OverflowError"
    if "json_negative pf v"
  proof (cases v)
    case (JInt n)
    with that n show ?thesis by simp
  qed (use that in \<open>auto simp: safe_positive_def safe_float_def split: option.splits\<close>)
  show "safe_positive pf v = Inr None" if "json_non_numeric pf v"
    using that by (cases v) (auto simp: safe_positive_def safe_float_def)
  show "\<not> flt x (Fin 0)" if "safe_positive pf v = Inr (Some x)"
    using that by (auto simp: safe_positive_def split: sum.splits option.splits if_splits)
  show "safe_positive pf (JInt 0) = Inr (Some (Fin 0))"
    by (simp add: safe_positive_def safe_float_def float_of_int_def to_double_def)
  show "safe_positive pf (JFloat (Fin 0)) = Inr (Some (Fin 0))"
    by (simp add: safe_positive_def safe_float_def)
qed

lemma bind_exn_Inr: "bind_exn m f = Inr y \<longleftrightarrow> (\<exists>x. m = Inr x \<and> f x = Inr y)"
  by (cases m) (simp_all add: bind_exn_def)

lemma LucjanData_init_fields:
  assumes "LucjanData_init pf pint to_str thermos config = Inr d"
  shows "safe_positive pf (dict_get thermos (str ''podczzas'')) = Inr (feeder_time_remaining_s d)"
    and "safe_positive pf (dict_get thermos (str ''podczdo'')) = Inr (feeder_time_total_s d)"
    and "safe_positive pf (dict_get thermos (str ''podgmin'')) = Inr (feeder_g_per_min d)"
    and "safe_positive pf (dict_get thermos (str ''podcm'')) = Inr (hopper_cm d)"
    and "safe_positive pf (dict_get thermos (str ''podcmp'')) = Inr (hopper_percent_raw d)"
    and "safe_float pf (dict_get thermos (str ''podcz'')) = Inr (feeder_time_s d)"
    and "raw_thermos d = thermos"
    and "raw_config d = config"
    and "boiler_mode d = config_get_unknown config (str ''PIEC_TRYB'')"
    and "safe_float pf (config_get config (str ''PIEC_ZADANA'')) = Inr (target_temp_co d)"
  using assms unfolding LucjanData_init_def bind_exn_Inr
  by auto

subsection \<open>Doubles\<close>

text \<open>
  An integer below \<open>2^53\<close> in absolute value is a double. Every finite result of
  \<open>to_double\<close> is \<open>m * 2^k\<close> with \<open>|m| < 2^53\<close> and \<open>k \<ge> -1074\<close>, and \<open>to_double\<close>
  leaves such a number as it is. Hence rounding a double to decimals with \<open>round\<close>
  never overflows.
\<close>

lemma round_half_even_of_int [simp]: "round_half_even (of_int k) = k"
  by (simp add: round_half_even_def Let_def)

lemma pow2_less_imp: "pow2 a < pow2 b \<Longrightarrow> a < b"
  using pow2_mono [of b a] by (cases "a < b") auto

lemma to_double_small_int:
  assumes "\<bar>n\<bar> < 2 ^ 53"
  shows "to_double (of_int n) = Fin (of_int n)"
proof (cases "n = 0")
  case True
  then show ?thesis by (simp add: to_double_def)
next
  case False
  let ?x = "of_int n :: rat"
  let ?e = "ilog2 ?x"
  from False have x0: "?x \<noteq> 0" by simp
  from False have x1: "1 \<le> \<bar>?x\<bar>"
    by (metis of_int_abs of_int_1_le_iff zero_less_abs_iff int_one_le_iff_zero_less)
  from assms have x53: "\<bar>?x\<bar> < pow2 53"
    by (metis of_int_abs of_int_less_iff of_int_numeral of_int_power pow2_nat of_nat_numeral)
  from ilog2_bounds [OF x0] have b: "pow2 ?e \<le> \<bar>?x\<bar>" "\<bar>?x\<bar> < pow2 (?e + 1)" by simp_all
  from b(1) x53 have "pow2 ?e < pow2 53" by simp
  then have e53: "?e < 53" by (rule pow2_less_imp)
  have "pow2 0 = 1" by (simp add: pow2_def)
  with x1 b(2) have "pow2 0 < pow2 (?e + 1)" by simp
  then have e0: "0 \<le> ?e" using pow2_less_imp [of 0 "?e + 1"] by simp
  from e0 have k: "max ?e (- 1022) - 52 = - int (nat (52 - ?e))" using e53 by simp
  have ulp: "pow2 (max ?e (- 1022) - 52) = 1 / 2 ^ nat (52 - ?e)"
    unfolding k by (simp add: pow2_def)
  have q: "?x / (1 / 2 ^ nat (52 - ?e)) = of_int (n * 2 ^ nat (52 - ?e))" by simp
  have y: "of_int (round_half_even (?x / (1 / 2 ^ nat (52 - ?e)))) * (1 / 2 ^ nat (52 - ?e)) = ?x"
    unfolding q round_half_even_of_int by simp
  have "pow2 53 \<le> pow2 1024" by (rule pow2_mono) simp
  with x53 have fin: "\<not> pow2 1024 \<le> \<bar>?x\<bar>" by simp
  let ?ulp = "pow2 (max ?e (- 1022) - 52)"
  have Y: "of_int (round_half_even (?x / ?ulp)) * ?ulp = ?x"
    unfolding ulp by (rule y)
  have "to_double ?x =
          (if pow2 1024 \<le> \<bar>of_int (round_half_even (?x / ?ulp)) * ?ulp\<bar>
           then (if 0 < ?x then PInf else NInf)
           else Fin (of_int (round_half_even (?x / ?ulp)) * ?ulp))"
    unfolding to_double_def Let_def using x0 by (simp only: if_False)
  also have "\<dots> = Fin ?x" unfolding Y using fin by (simp only: if_False)
  finally show ?thesis .
qed

lemma float_of_int_small: "\<bar>n\<bar> < 2 ^ 53 \<Longrightarrow> float_of_int n = Inr (Fin (of_int n))"
  by (simp add: float_of_int_def to_double_small_int)

lemmas json_eval =
  safe_float_def safe_positive_def dict_get_def config_get_def config_get_unknown_def
  float_of_int_small bind_exn_def dict_get_default_def py_len_def py_getitem_def py_get_def
  py_int_def py_str_def safe_int_def int_to_bool_def TEMP_SENSORS_def

text \<open>
  C6. In every snapshot that \<open>LucjanData\<close> builds, each of the fields read from
  \<open>podcm\<close>, \<open>podcmp\<close>, \<open>podczzas\<close>, \<open>podczdo\<close> and \<open>podgmin\<close> is \<open>None\<close> when the key
  is missing or its value is negative or not a number, is never a value below zero, and
  is \<open>0.0\<close> for the value 0.
\<close>

theorem sensor_absent_fields_never_negative:
  assumes "LucjanData_init parse_float parse_int to_str thermos config = Inr d"
    and "(key, field) \<in> set sensor_absent_fields"
  shows "(map_of thermos key = None \<longrightarrow> field d = None)
       \<and> (json_negative parse_float (dict_get thermos key) \<longrightarrow> field d = None)
       \<and> (json_non_numeric parse_float (dict_get thermos key) \<longrightarrow> field d = None)
       \<and> (\<forall>x. field d = Some x \<longrightarrow> \<not> flt x (Fin 0))
       \<and> (dict_get thermos key = JInt 0 \<or> dict_get thermos key = JFloat (Fin 0)
            \<longrightarrow> field d = Some (Fin 0))"
proof -
  have sp: "safe_positive parse_float (dict_get thermos key) = Inr (field d)"
    using assms(2) LucjanData_init_fields(1-5) [OF assms(1)]
    by (auto simp: sensor_absent_fields_def)
  have missing: "dict_get thermos key = JNull" if "map_of thermos key = None"
    using that by (simp add: dict_get_def)
  show ?thesis
  proof (intro conjI impI allI)
    show "field d = None" if "map_of thermos key = None"
      using sp missing [OF that] safe_positive_cases(1) [of parse_float] by simp
    show "field d = None" if "json_negative parse_float (dict_get thermos key)"
      using sp safe_positive_cases(3) [OF that] by auto
    show "field d = None" if "json_non_numeric parse_float (dict_get thermos key)"
      using sp safe_positive_cases(4) [OF that] by simp
    show "\<not> flt x (Fin 0)" if "field d = Some x" for x
      using sp that safe_positive_cases(5) [of parse_float "dict_get thermos key" x] by simp
    show "field d = Some (Fin 0)"
      if "dict_get thermos key = JInt 0 \<or> dict_get thermos key = JFloat (Fin 0)"
      using sp that safe_positive_cases(6,7) [of parse_float] by auto
  qed
qed

lemma pow2_0 [simp]: "pow2 0 = 1"
  by (simp add: pow2_def)

lemma pow2_numeral_nat: "pow2 (numeral n) = 2 ^ numeral n"
  by (simp add: pow2_def)

lemma abs_pow2 [simp]: "\<bar>pow2 k\<bar> = pow2 k"
  using pow2_pos [of k] by (simp only: abs_of_pos)

lemma pow2_neq0 [simp]: "pow2 k \<noteq> 0"
  by (simp add: pow2_powi)

lemma pow2_1: "pow2 1 = 2"
  by (simp add: pow2_def)

lemma pow2_53: "pow2 53 = 2 ^ 53"
  by (simp add: pow2_def)

lemma round_half_even_abs_le:
  "\<bar>of_int (round_half_even x) :: rat\<bar> \<le> \<bar>x\<bar> + 1 / 2"
  using round_half_even_near [of x] by linarith

lemma to_double_repr:
  assumes "to_double z = Fin y"
  shows "\<exists>m k. y = of_int m * pow2 k \<and> \<bar>m\<bar> < 2 ^ 53 \<and> - 1074 \<le> k \<and> \<bar>y\<bar> < pow2 1024"
proof (cases "z = 0")
  case True
  with assms have "y = 0" by (simp add: to_double_def)
  then have "y = of_int 0 * pow2 0 \<and> \<bar>0::int\<bar> < 2 ^ 53 \<and> - 1074 \<le> (0::int) \<and> \<bar>y\<bar> < pow2 1024"
    by simp
  then show ?thesis by blast
next
  case False
  define K where "K = max (ilog2 z) (- 1022) - 52"
  define M where "M = round_half_even (z / pow2 K)"
  have Kge: "- 1074 \<le> K" and Ke: "ilog2 z + 1 \<le> K + 53" by (simp_all add: K_def)
  from assms False have y: "y = of_int M * pow2 K" and fin: "\<bar>y\<bar> < pow2 1024"
    by (auto simp: to_double_def Let_def K_def M_def split: if_splits)
  from ilog2_bounds [OF False] have zb: "\<bar>z\<bar> < pow2 (ilog2 z + 1)" by simp
  have "pow2 (ilog2 z + 1) \<le> pow2 (K + 53)" using Ke by (rule pow2_mono)
  also have "\<dots> = pow2 K * 2 ^ 53" by (simp only: pow2_add pow2_53)
  finally have "\<bar>z\<bar> < pow2 K * 2 ^ 53" using zb by simp
  then have q: "\<bar>z / pow2 K\<bar> < 2 ^ 53"
    by (simp add: abs_divide pos_divide_less_eq mult.commute)
  have "\<bar>of_int M :: rat\<bar> \<le> \<bar>z / pow2 K\<bar> + 1 / 2"
    unfolding M_def by (rule round_half_even_abs_le)
  with q have "\<bar>of_int M :: rat\<bar> < 2 ^ 53 + 1 / 2" by linarith
  then have "(of_int \<bar>M\<bar> :: rat) < of_int (2 ^ 53) + 1 / 2" by simp
  then have "(of_int \<bar>M\<bar> :: rat) < of_int (2 ^ 53 + 1)" by simp
  then have "\<bar>M\<bar> < 2 ^ 53 + 1" by (simp only: of_int_less_iff)
  then have mle: "\<bar>M\<bar> \<le> 2 ^ 53" by simp
  show ?thesis
  proof (cases "\<bar>M\<bar> = 2 ^ 53")
    case False
    with mle have "\<bar>M\<bar> < 2 ^ 53" by simp
    with y fin Kge show ?thesis by blast
  next
    case True
    then have "M = 9007199254740992 \<or> M = - 9007199254740992"
      by (simp add: abs_if split: if_splits)
    then have "M = 2 * (M div 2) \<and> \<bar>M div 2\<bar> < 2 ^ 53" by auto
    then have m2: "(of_int M :: rat) = of_int (M div 2) * 2" "\<bar>M div 2\<bar> < 2 ^ 53"
      by (metis mult.commute of_int_mult of_int_numeral, simp)
    have "pow2 (K + 1) = pow2 K * 2" by (simp only: pow2_add pow2_1)
    with y m2(1) have y2: "y = of_int (M div 2) * pow2 (K + 1)" by simp
    have "- 1074 \<le> K + 1" using Kge by simp
    with y2 m2(2) fin show ?thesis by blast
  qed
qed

lemma to_double_idem:
  assumes y: "y = of_int m * pow2 k" and m: "\<bar>m\<bar> < 2 ^ 53" and k: "- 1074 \<le> k"
    and fin: "\<bar>y\<bar> < pow2 1024"
  shows "to_double y = Fin y"
proof (cases "y = 0")
  case True
  then show ?thesis by (simp add: to_double_def)
next
  case False
  define k' where "k' = max (ilog2 y) (- 1022) - 52"
  from ilog2_bounds [OF False] have lo: "pow2 (ilog2 y) \<le> \<bar>y\<bar>" by simp
  from m have "(of_int \<bar>m\<bar> :: rat) < of_int (2 ^ 53)" by (simp only: of_int_less_iff)
  then have mr: "\<bar>of_int m :: rat\<bar> < 2 ^ 53" by simp
  have "\<bar>y\<bar> = \<bar>of_int m :: rat\<bar> * pow2 k" by (simp add: y abs_mult)
  also have "\<dots> < 2 ^ 53 * pow2 k" using mr by (simp add: mult_strict_right_mono)
  also have "\<dots> = pow2 (k + 53)" by (simp only: pow2_add pow2_53 mult.commute)
  finally have "pow2 (ilog2 y) < pow2 (k + 53)" using lo by simp
  then have "ilog2 y < k + 53" by (rule pow2_less_imp)
  with k have "k' \<le> k" by (simp add: k'_def)
  then obtain j :: nat where j: "k = k' + int j" by (metis zle_iff_zadd)
  have pk: "pow2 k = pow2 k' * 2 ^ j" unfolding j by (simp only: pow2_add pow2_nat)
  have yk: "y = of_int (m * 2 ^ j) * pow2 k'" unfolding y pk by simp
  have q: "y / pow2 k' = of_int (m * 2 ^ j)"
    by (subst yk) simp
  have Y: "of_int (round_half_even (y / pow2 k')) * pow2 k' = y"
    unfolding q round_half_even_of_int by (rule yk [symmetric])
  have "to_double y =
          (if pow2 1024 \<le> \<bar>of_int (round_half_even (y / pow2 k')) * pow2 k'\<bar>
           then (if 0 < y then PInf else NInf)
           else Fin (of_int (round_half_even (y / pow2 k')) * pow2 k'))"
    unfolding to_double_def Let_def k'_def using False by (simp only: if_False)
  also have "\<dots> = Fin y" unfolding Y using fin by simp
  finally show ?thesis .
qed

lemma to_double_finite:
  assumes "\<bar>w\<bar> < pow2 1023"
  shows "\<exists>y. to_double w = Fin y"
proof (cases "w = 0")
  case True
  then show ?thesis by (simp add: to_double_def)
next
  case False
  let ?e = "ilog2 w"
  let ?k = "max ?e (- 1022) - 52"
  from ilog2_bounds [OF False] have lo: "pow2 ?e \<le> \<bar>w\<bar>" by simp
  with assms have "pow2 ?e < pow2 1023" by simp
  then have "?e < 1023" by (rule pow2_less_imp)
  then have "?k \<le> 970" by simp
  then have ulp: "pow2 ?k \<le> pow2 970" by (rule pow2_mono)
  have "\<bar>of_int (round_half_even (w / pow2 ?k)) * pow2 ?k\<bar>
          = \<bar>of_int (round_half_even (w / pow2 ?k)) :: rat\<bar> * pow2 ?k"
    by (simp add: abs_mult)
  also have "\<dots> \<le> (\<bar>w / pow2 ?k\<bar> + 1 / 2) * pow2 ?k"
    using round_half_even_abs_le [of "w / pow2 ?k"] by (simp add: mult_right_mono)
  also have "\<dots> = \<bar>w\<bar> + pow2 ?k / 2" by (simp add: field_simps abs_divide)
  also have "\<dots> < pow2 1023 + pow2 970 / 2" using assms ulp by simp
  also have "\<dots> < pow2 1024" by (simp add: pow2_numeral_nat)
  finally have "\<not> pow2 1024 \<le> \<bar>of_int (round_half_even (w / pow2 ?k)) * pow2 ?k\<bar>"
    by simp
  then show ?thesis using False by (simp add: to_double_def Let_def)
qed

lemma py_round_ok:
  assumes "to_double z = Fin y"
  shows "\<exists>y'. py_round (Fin y) n = Inr (Fin y')"
proof -
  from to_double_repr [OF assms] obtain m k where
    r: "y = of_int m * pow2 k" "\<bar>m\<bar> < 2 ^ 53" "- 1074 \<le> k" "\<bar>y\<bar> < pow2 1024"
    by blast
  define w where "w = (of_int (round_half_even (y * 10 ^ n)) :: rat) / 10 ^ n"
  have "\<exists>y'. to_double w = Fin y'"
  proof (cases "0 \<le> k")
    case True
    then obtain j :: nat where j: "k = int j" by (metis nat_0_le)
    have "y * 10 ^ n = of_int (m * 2 ^ j * 10 ^ n)"
      unfolding r(1) j pow2_nat by simp
    then have "round_half_even (y * 10 ^ n) = m * 2 ^ j * 10 ^ n"
      by (simp only: round_half_even_of_int)
    then have "w = y" unfolding w_def r(1) j pow2_nat by simp
    moreover have "to_double y = Fin y" using r by (rule to_double_idem)
    ultimately show ?thesis by simp
  next
    case False
    then have "k \<le> - 1" by simp
    then have "pow2 k \<le> pow2 (- 1)" by (rule pow2_mono)
    also have "pow2 (- 1) = 1 / 2" by (simp add: pow2_def)
    finally have pk: "pow2 k \<le> 1 / 2" .
    from r(2) have "(of_int \<bar>m\<bar> :: rat) < of_int (2 ^ 53)" by (simp only: of_int_less_iff)
    then have mr: "\<bar>of_int m :: rat\<bar> < 2 ^ 53" by simp
    have "\<bar>y\<bar> = \<bar>of_int m :: rat\<bar> * pow2 k" by (simp add: r(1) abs_mult)
    also have "\<dots> \<le> \<bar>of_int m :: rat\<bar> * (1 / 2)"
      using pk by (intro mult_left_mono) simp_all
    also have "\<dots> < 2 ^ 53 * (1 / 2)" using mr by simp
    finally have yb: "\<bar>y\<bar> < 2 ^ 52" by simp
    have ten: "(1::rat) \<le> 10 ^ n" by simp
    have "\<bar>w\<bar> = \<bar>of_int (round_half_even (y * 10 ^ n)) :: rat\<bar> / 10 ^ n"
      by (simp add: w_def abs_divide)
    also have "\<dots> \<le> (\<bar>y * 10 ^ n\<bar> + 1 / 2) / 10 ^ n"
      using round_half_even_abs_le [of "y * 10 ^ n"] by (simp add: divide_right_mono)
    also have "\<dots> = \<bar>y\<bar> + (1 / 2) / 10 ^ n"
      by (simp add: abs_mult add_divide_distrib)
    also have "\<dots> \<le> \<bar>y\<bar> + 1 / 2"
      using ten by (simp add: field_simps)
    also have "\<dots> < pow2 1023" using yb by (simp add: pow2_numeral_nat)
    finally show ?thesis by (rule to_double_finite)
  qed
  then show ?thesis by (auto simp: py_round_def w_def)
qed

lemma py_round_special:
  "py_round PInf n = Inr PInf" "py_round NInf n = Inr NInf" "py_round NaN n = Inr NaN"
  by (simp_all add: py_round_def)

lemma py_round_to_double: "\<exists>y. py_round (to_double z) n = Inr y"
proof (cases "to_double z")
  case (Fin y)
  with py_round_ok [OF this, of n] show ?thesis by auto
qed (simp_all add: py_round_special)

lemma py_round_fmul: "\<exists>y. py_round (fmul a b) n = Inr y"
  by (cases a; cases b) (simp_all add: py_round_special py_round_to_double)

lemma py_round_fdiv: "fdiv a b = Inr q \<Longrightarrow> \<exists>y. py_round q n = Inr y"
proof (cases b)
  case (Fin y)
  assume "fdiv a b = Inr q"
  with Fin show ?thesis
    by (cases a) (auto simp: py_round_special py_round_to_double split: if_splits)
next
  case PInf
  assume "fdiv a b = Inr q"
  with PInf have "q = to_double 0 \<or> q = NaN" by (cases a) (auto simp: to_double_def)
  then show ?thesis using py_round_to_double [of 0 n] by (auto simp: py_round_special)
next
  case NInf
  assume "fdiv a b = Inr q"
  with NInf have "q = to_double 0 \<or> q = NaN" by (cases a) (auto simp: to_double_def)
  then show ?thesis using py_round_to_double [of 0 n] by (auto simp: py_round_special)
next
  case NaN
  assume "fdiv a b = Inr q"
  with NaN show ?thesis by (auto simp: py_round_special)
qed

lemma fdiv_positive: "fgt t (Fin 0) \<Longrightarrow> \<exists>q. fdiv r t = Inr q"
  by (cases t; cases r) (auto simp: fgt_def)

subsection \<open>The derived values\<close>

lemma td_half: "to_double (1 / 2) = Fin (1 / 2)"
  using to_double_idem [of "1 / 2" 1 "- 1"] by (simp add: pow2_def)

lemma td_06: "to_double (3 / 5) = Fin (5404319552844595 / 9007199254740992)"
  by code_simp

lemma to_double_numeral:
  "numeral k < (2::int) ^ 53 \<Longrightarrow> to_double (numeral k) = Fin (numeral k)"
  using to_double_small_int [of "numeral k"] by simp

lemma round_06: "py_round (Fin (5404319552844595 / 9007199254740992)) 2
                   = Inr (Fin (5404319552844595 / 9007199254740992))"
  by code_simp

lemma round_50: "py_round (Fin 50) 1 = Inr (Fin 50)"
  by code_simp

lemmas float_eval =
  hopper_level_percent_def fuel_consumption_kg_def bind_exn_def fgt_def
  to_double_numeral td_half td_06 round_06 round_50 round_50 [unfolded One_nat_def]

lemma thermos_example_data:
  "LucjanData_init no_float no_int render_empty thermos_example Map.empty = Inr data_example"
  by (simp add: LucjanData_init_def thermos_example_def data_example_def json_eval str_def
      no_float_def)

theorem sensor_absent_fields_never_negative_witness:
  "LucjanData_init no_float no_int render_empty thermos_example Map.empty = Inr data_example
   \<and> (str ''podcm'', hopper_cm) \<in> set sensor_absent_fields
   \<and> (str ''podczzas'', feeder_time_remaining_s) \<in> set sensor_absent_fields
   \<and> json_negative no_float (dict_get thermos_example (str ''podcm''))
   \<and> hopper_cm data_example = None
   \<and> dict_get thermos_example (str ''podczzas'') = JInt 0
   \<and> feeder_time_remaining_s data_example = Some (Fin 0)"
proof -
  have 1: "json_negative no_float (dict_get thermos_example (str ''podcm''))"
    by (simp add: thermos_example_def dict_get_def str_def)
  have 2: "dict_get thermos_example (str ''podczzas'') = JInt 0"
    by (simp add: thermos_example_def dict_get_def str_def)
  have 3: "(str ''podcm'', hopper_cm) \<in> set sensor_absent_fields"
    and 4: "(str ''podczzas'', feeder_time_remaining_s) \<in> set sensor_absent_fields"
    by (simp_all add: sensor_absent_fields_def)
  from sensor_absent_fields_never_negative [OF thermos_example_data 3] 1
  have 5: "hopper_cm data_example = None" by blast
  from sensor_absent_fields_never_negative [OF thermos_example_data 4] 2
  have 6: "feeder_time_remaining_s data_example = Some (Fin 0)" by blast
  from thermos_example_data 1 2 3 4 5 6 show ?thesis by (intro conjI)
qed

lemma round_half_even_tie:
  assumes "\<bar>of_int (round_half_even x) - x\<bar> = 1 / 2"
  shows "even (round_half_even x)"
proof -
  define f where "f = \<lfloor>x\<rfloor>"
  define d where "d = x - of_int f"
  have d: "0 \<le> d" "d < 1" unfolding d_def f_def by linarith+
  have x: "x = of_int f + d" by (simp add: d_def)
  have r: "round_half_even x =
             (if d < 1 / 2 then f else if 1 / 2 < d then f + 1 else if even f then f else f + 1)"
    by (simp add: round_half_even_def Let_def f_def d_def)
  show ?thesis
  proof (cases "d < 1 / 2")
    case True
    with r have "round_half_even x = f" by simp
    with assms True d x show ?thesis by simp
  next
    case False
    show ?thesis
    proof (cases "1 / 2 < d")
      case True
      with False r have "round_half_even x = f + 1" by simp
      with assms True d x show ?thesis by simp
    next
      case F2: False
      with False r show ?thesis by simp
    qed
  qed
qed

lemma py_round_spec:
  assumes "py_round (Fin a) n = Inr y"
  shows "\<exists>k v. y = Fin v \<and> to_double (of_int k / 10 ^ n) = Fin v
           \<and> \<bar>of_int k / 10 ^ n - a\<bar> \<le> 1 / (2 * 10 ^ n)
           \<and> (\<bar>of_int k / 10 ^ n - a\<bar> = 1 / (2 * 10 ^ n) \<longrightarrow> even k)"
proof -
  define k where "k = round_half_even (a * 10 ^ n)"
  from assms obtain v where v: "to_double (of_int k / 10 ^ n) = Fin v" "y = Fin v"
    by (auto simp: py_round_def k_def split: pyfloat.splits)
  have e: "\<bar>of_int k / 10 ^ n - a\<bar> = \<bar>of_int k - a * 10 ^ n\<bar> / 10 ^ n"
  proof -
    have "of_int k / 10 ^ n - a = (of_int k - a * 10 ^ n) / 10 ^ n"
      by (simp add: diff_divide_distrib)
    then show ?thesis by (simp add: abs_divide)
  qed
  have near: "\<bar>of_int k - a * 10 ^ n\<bar> \<le> 1 / 2"
    unfolding k_def by (rule round_half_even_near)
  have 1: "\<bar>of_int k / 10 ^ n - a\<bar> \<le> 1 / (2 * 10 ^ n)"
    unfolding e using near by (simp add: field_simps)
  have 2: "even k" if "\<bar>of_int k / 10 ^ n - a\<bar> = 1 / (2 * 10 ^ n)"
  proof -
    from that have "\<bar>of_int k - a * 10 ^ n\<bar> = 1 / 2"
      unfolding e by (simp add: field_simps)
    then show ?thesis unfolding k_def by (rule round_half_even_tie)
  qed
  from v 1 2 show ?thesis by blast
qed

lemma to_double_accuracy:
  assumes "to_double z = Fin v" and "2 powi (- 1022) \<le> \<bar>z\<bar>"
  shows "\<bar>v - z\<bar> \<le> \<bar>z\<bar> / 2 ^ 53"
proof -
  from assms(2) have z0: "z \<noteq> 0" by auto
  define e where "e = ilog2 z"
  define K where "K = e - 52"
  define M where "M = round_half_even (z / pow2 K)"
  from ilog2_bounds [OF z0] have b: "pow2 e \<le> \<bar>z\<bar>" "\<bar>z\<bar> < pow2 (e + 1)"
    by (simp_all add: e_def)
  from assms(2) b(2) have "pow2 (- 1022) < pow2 (e + 1)" by (simp add: pow2_powi)
  then have "- 1022 < e + 1" by (rule pow2_less_imp)
  then have mx: "max (ilog2 z) (- 1022) - 52 = K" by (simp add: K_def e_def)
  from assms(1) z0 have v: "v = of_int M * pow2 K"
    by (auto simp: to_double_def Let_def mx M_def split: if_splits)
  have "v - z = (of_int M - z / pow2 K) * pow2 K" by (simp add: v field_simps)
  then have "\<bar>v - z\<bar> = \<bar>of_int M - z / pow2 K\<bar> * pow2 K" by (simp add: abs_mult)
  also have "\<dots> \<le> (1 / 2) * pow2 K"
  proof (rule mult_right_mono)
    show "\<bar>of_int M - z / pow2 K\<bar> \<le> 1 / 2"
      unfolding M_def by (rule round_half_even_near)
    show "0 \<le> pow2 K" by (simp add: pow2_powi)
  qed
  also have "\<dots> = pow2 e / 2 ^ 53"
  proof -
    have "e = K + 52" by (simp add: K_def)
    then have "pow2 e = pow2 K * pow2 52" by (simp only: pow2_add)
    then show ?thesis by (simp add: pow2_def)
  qed
  also have "\<dots> \<le> \<bar>z\<bar> / 2 ^ 53" using b(1) by (simp add: divide_right_mono)
  finally show ?thesis .
qed

lemma to_double_grid:
  assumes "to_double z = Fin v"
  shows "\<exists>m e. v = of_int m * 2 powi e \<and> \<bar>m\<bar> < 2 ^ 53 \<and> - 1074 \<le> e"
  using to_double_repr [OF assms] by (auto simp: pow2_powi)

lemma ex_third_q: "fdiv (Fin 1) (Fin 3) = Inr (Fin (6004799503160661 / 18014398509481984))"
  by code_simp

lemma ex_third_x: "fmul (Fin (6004799503160661 / 18014398509481984)) (Fin 100)
                   = Fin (2345624805922133 / 70368744177664)"
  by code_simp

lemma ex_third_y: "py_round (Fin (2345624805922133 / 70368744177664)) 1
                   = Inr (Fin (2343279181116211 / 70368744177664))"
  by code_simp

lemma td_333: "to_double (333 / 10) = Fin (2343279181116211 / 70368744177664)"
  by code_simp

lemma ex_fuel_m: "fdiv (Fin 4165) (Fin 60) = Inr (Fin (4884763658332843 / 70368744177664))"
  by code_simp

lemma ex_fuel_p: "fmul (Fin (4884763658332843 / 70368744177664)) (Fin 260)
                  = Fin (2480544045247147 / 137438953472)"
  by code_simp

lemma ex_fuel_kg: "fdiv (Fin (2480544045247147 / 137438953472)) (Fin 1000)
                   = Inr (Fin (5080154204666157 / 281474976710656))"
  by code_simp

lemma ex_fuel_y: "py_round (Fin (5080154204666157 / 281474976710656)) 2
                  = Inr (Fin (5080623329627341 / 281474976710656))"
  by code_simp

lemma td_1805: "to_double (1805 / 100) = Fin (5080623329627341 / 281474976710656)"
  by code_simp

lemma py_round_1:
  assumes "py_round (Fin a) 1 = Inr y"
  shows "\<exists>k v. y = Fin v \<and> to_double (of_int k / 10) = Fin v
           \<and> \<bar>of_int k / 10 - a\<bar> \<le> 1 / 20
           \<and> (\<bar>of_int k / 10 - a\<bar> = 1 / 20 \<longrightarrow> even k)"
  using py_round_spec [OF assms] by simp

lemma py_round_2:
  assumes "py_round (Fin a) 2 = Inr y"
  shows "\<exists>k v. y = Fin v \<and> to_double (of_int k / 100) = Fin v
           \<and> \<bar>of_int k / 100 - a\<bar> \<le> 1 / 200
           \<and> (\<bar>of_int k / 100 - a\<bar> = 1 / 200 \<longrightarrow> even k)"
  using py_round_spec [OF assms] by simp

lemma py_round_1_cases:
  assumes "py_round x 1 = Inr y"
  shows "case x of
           Fin a \<Rightarrow> (\<exists>k v. y = Fin v \<and> to_double (of_int k / 10) = Fin v
                       \<and> \<bar>of_int k / 10 - a\<bar> \<le> 1 / 20
                       \<and> (\<bar>of_int k / 10 - a\<bar> = 1 / 20 \<longrightarrow> even k))
         | PInf \<Rightarrow> y = PInf | NInf \<Rightarrow> y = NInf | NaN \<Rightarrow> y = NaN"
proof (cases x)
  case (Fin a)
  with assms py_round_1 [of a y] show ?thesis by simp
qed (use assms in \<open>simp_all add: py_round_special\<close>)

lemma py_round_2_cases:
  assumes "py_round x 2 = Inr y"
  shows "case x of
           Fin a \<Rightarrow> (\<exists>k v. y = Fin v \<and> to_double (of_int k / 100) = Fin v
                       \<and> \<bar>of_int k / 100 - a\<bar> \<le> 1 / 200
                       \<and> (\<bar>of_int k / 100 - a\<bar> = 1 / 200 \<longrightarrow> even k))
         | PInf \<Rightarrow> y = PInf | NInf \<Rightarrow> y = NInf | NaN \<Rightarrow> y = NaN"
proof (cases x)
  case (Fin a)
  with assms py_round_2 [of a y] show ?thesis by simp
qed (use assms in \<open>simp_all add: py_round_special\<close>)

lemma round_half_even_nearest:
  "\<bar>of_int (round_half_even x) - x\<bar> \<le> \<bar>of_int j - x\<bar>"
proof (cases "j = round_half_even x")
  case True
  then show ?thesis by simp
next
  case False
  then have "1 \<le> \<bar>j - round_half_even x\<bar>" by simp
  then have "(of_int 1 :: rat) \<le> of_int \<bar>j - round_half_even x\<bar>" by (simp only: of_int_le_iff)
  then have "(1 :: rat) \<le> \<bar>of_int j - of_int (round_half_even x)\<bar>" by simp
  with round_half_even_near [of x] show ?thesis by linarith
qed

lemma grid_nearest:
  assumes "v = of_int (round_half_even (z / pow2 K)) * pow2 K"
  shows "\<bar>v - z\<bar> \<le> \<bar>of_int j * pow2 K - z\<bar>"
proof -
  define M where "M = round_half_even (z / pow2 K)"
  have "v - z = (of_int M - z / pow2 K) * pow2 K" by (simp add: assms M_def field_simps)
  then have 1: "\<bar>v - z\<bar> = \<bar>of_int M - z / pow2 K\<bar> * pow2 K" by (simp add: abs_mult)
  have "of_int j * pow2 K - z = (of_int j - z / pow2 K) * pow2 K" by (simp add: field_simps)
  then have 2: "\<bar>of_int j * pow2 K - z\<bar> = \<bar>of_int j - z / pow2 K\<bar> * pow2 K"
    by (simp add: abs_mult)
  have "\<bar>of_int M - z / pow2 K\<bar> * pow2 K \<le> \<bar>of_int j - z / pow2 K\<bar> * pow2 K"
  proof (rule mult_right_mono)
    show "\<bar>of_int M - z / pow2 K\<bar> \<le> \<bar>of_int j - z / pow2 K\<bar>"
      unfolding M_def by (rule round_half_even_nearest)
    show "0 \<le> pow2 K" by (simp add: pow2_powi)
  qed
  with 1 2 show ?thesis by simp
qed

lemma to_double_nearest:
  assumes v: "to_double z = Fin v" and m: "\<bar>m\<bar> < 2 ^ 53" and e: "- 1074 \<le> e"
  shows "\<bar>v - z\<bar> \<le> \<bar>of_int m * 2 powi e - z\<bar>"
proof (cases "z = 0")
  case True
  with v show ?thesis by (simp add: to_double_def)
next
  case False
  define K where "K = max (ilog2 z) (- 1022) - 52"
  from v False have vM: "v = of_int (round_half_even (z / pow2 K)) * pow2 K"
    by (auto simp: to_double_def Let_def K_def split: if_splits)
  show ?thesis
  proof (cases "K \<le> e")
    case True
    then have "e = K + int (nat (e - K))" by simp
    then have "pow2 e = pow2 K * pow2 (int (nat (e - K)))" by (metis pow2_add)
    then have "pow2 e = pow2 K * 2 ^ nat (e - K)" by (simp only: pow2_nat)
    then have "2 powi e = 2 ^ nat (e - K) * pow2 K" by (simp add: pow2_powi mult.commute)
    then have eq: "of_int m * 2 powi e = of_int (m * 2 ^ nat (e - K)) * pow2 K" by simp
    show ?thesis unfolding eq by (rule grid_nearest [OF vM])
  next
    case False
    with e have Kl: "K = ilog2 z - 52" and eK: "e + 1 \<le> K" by (simp_all add: K_def)
    from ilog2_bounds [OF \<open>z \<noteq> 0\<close>] have lo: "pow2 (ilog2 z) \<le> \<bar>z\<bar>" by simp
    have P: "pow2 (ilog2 z) = 2 ^ 52 * pow2 K"
    proof -
      have "ilog2 z = 52 + K" by (simp add: Kl)
      then have "pow2 (ilog2 z) = pow2 52 * pow2 K" by (simp only: pow2_add)
      then show ?thesis by (simp add: pow2_def)
    qed
    define s :: int where "s = (if 0 < z then 1 else - 1)"
    have sz: "\<bar>z\<bar> = of_int s * z" "\<bar>of_int s :: rat\<bar> = 1"
      using \<open>z \<noteq> 0\<close> by (auto simp: s_def)
    have "\<bar>of_int (s * 2 ^ 52) * pow2 K - z\<bar> = \<bar>of_int s * (pow2 (ilog2 z) - \<bar>z\<bar>)\<bar>"
      using \<open>z \<noteq> 0\<close> by (simp add: P s_def algebra_simps)
    also have "\<dots> = \<bar>z\<bar> - pow2 (ilog2 z)" using lo sz(2) by (simp add: abs_mult)
    finally have near: "\<bar>v - z\<bar> \<le> \<bar>z\<bar> - pow2 (ilog2 z)"
      using grid_nearest [OF vM, of "s * 2 ^ 52"] by simp
    from m have "\<bar>m\<bar> \<le> 2 ^ 53" by simp
    then have "(of_int \<bar>m\<bar> :: rat) \<le> of_int (2 ^ 53)" by (simp only: of_int_le_iff)
    then have mr: "\<bar>of_int m :: rat\<bar> \<le> 2 ^ 53" by simp
    have "\<bar>of_int m * 2 powi e\<bar> = \<bar>of_int m :: rat\<bar> * pow2 e"
      by (simp add: abs_mult pow2_powi)
    also have "\<dots> \<le> 2 ^ 53 * pow2 e" using mr by (simp add: mult_right_mono)
    also have "\<dots> = pow2 (e + 53)" by (simp only: pow2_add pow2_53 mult.commute)
    also have "\<dots> \<le> pow2 (ilog2 z)" using eK Kl by (intro pow2_mono) simp
    finally have "\<bar>of_int m * 2 powi e\<bar> \<le> pow2 (ilog2 z)" .
    then have "\<bar>z\<bar> - pow2 (ilog2 z) \<le> \<bar>of_int m * 2 powi e - z\<bar>" by linarith
    with near show ?thesis by linarith
  qed
qed

text \<open>
  C7. \<open>hopper_level_percent\<close> is the direct percentage when that field is present.
  Otherwise, with remaining and total present and total above zero, the division and
  the multiplication by 100 are the float operations (the exact result rounded to a
  nearest double: no number with a 53-bit significand and exponent from -1074 is
  closer), and the result is that product rounded to one decimal: the double of
  \<open>k / 10\<close> for an integer \<open>k\<close> with \<open>k / 10\<close> at most 0.05 from the product, \<open>k\<close> even
  when it is exactly 0.05 away (an infinite or NaN product is returned as it is); the
  computation never raises. Otherwise the result is \<open>None\<close>. Remaining 600 and total
  1200 give 50.0, remaining 1 and total 3 give 33.3, total 0 gives \<open>None\<close>.
\<close>

theorem hopper_level_percent_cases:
  "(hopper_percent_raw d \<noteq> None \<longrightarrow> hopper_level_percent d = Inr (hopper_percent_raw d))
   \<and> (\<forall>r t. hopper_percent_raw d = None \<and> feeder_time_remaining_s d = Some r
             \<and> feeder_time_total_s d = Some t \<and> fgt t (Fin 0) \<longrightarrow>
          (\<exists>q y. fdiv r t = Inr q \<and> py_round (fmul q (Fin 100)) 1 = Inr y
                 \<and> hopper_level_percent d = Inr (Some y)
                 \<and> (case fmul q (Fin 100) of
                       Fin x \<Rightarrow>
                         (\<exists>k v. y = Fin v \<and> to_double (of_int k / 10) = Fin v
                            \<and> \<bar>of_int k / 10 - x\<bar> \<le> 1 / 20
                            \<and> (\<bar>of_int k / 10 - x\<bar> = 1 / 20 \<longrightarrow> even k))
                     | PInf \<Rightarrow> y = PInf
                     | NInf \<Rightarrow> y = NInf
                     | NaN \<Rightarrow> y = NaN)))
   \<and> (hopper_percent_raw d = None
        \<and> (feeder_time_remaining_s d = None \<or> feeder_time_total_s d = None
            \<or> (\<exists>t. feeder_time_total_s d = Some t \<and> \<not> fgt t (Fin 0))) \<longrightarrow>
          hopper_level_percent d = Inr None)
   \<and> (\<forall>a b. 0 < b \<longrightarrow> fdiv (Fin a) (Fin b) = Inr (to_double (a / b)))
   \<and> (\<forall>a. fmul (Fin a) (Fin 100) = to_double (a * 100))
   \<and> (\<forall>z v. to_double z = Fin v \<longrightarrow>
          (\<exists>m e. v = of_int m * 2 powi e \<and> \<bar>m\<bar> < 2 ^ 53 \<and> - 1074 \<le> e)
          \<and> (2 powi (- 1022) \<le> \<bar>z\<bar> \<longrightarrow> \<bar>v - z\<bar> \<le> \<bar>z\<bar> / 2 ^ 53))
   \<and> (\<forall>z v m e. to_double z = Fin v \<and> \<bar>m\<bar> < 2 ^ 53 \<and> - 1074 \<le> e \<longrightarrow>
          \<bar>v - z\<bar> \<le> \<bar>of_int m * 2 powi e - z\<bar>)
   \<and> hopper_level_percent (data_example
         \<lparr> hopper_percent_raw := None, feeder_time_remaining_s := Some (Fin 600),
           feeder_time_total_s := Some (Fin 1200) \<rparr>) = Inr (Some (Fin 50))
   \<and> hopper_level_percent (data_example
         \<lparr> hopper_percent_raw := None, feeder_time_remaining_s := Some (Fin 1),
           feeder_time_total_s := Some (Fin 3) \<rparr>) = Inr (Some (to_double (333 / 10)))
   \<and> to_double (333 / 10) = Fin (2343279181116211 / 70368744177664)
   \<and> hopper_level_percent (data_example
         \<lparr> hopper_percent_raw := None, feeder_time_total_s := Some (Fin 0) \<rparr>) = Inr None"
proof (intro conjI allI impI)
  show "hopper_level_percent d = Inr (hopper_percent_raw d)" if "hopper_percent_raw d \<noteq> None"
    using that by (simp add: hopper_level_percent_def)
  show "\<exists>q y. fdiv r t = Inr q \<and> py_round (fmul q (Fin 100)) 1 = Inr y
                 \<and> hopper_level_percent d = Inr (Some y)
                 \<and> (case fmul q (Fin 100) of
                       Fin x \<Rightarrow>
                         (\<exists>k v. y = Fin v \<and> to_double (of_int k / 10) = Fin v
                            \<and> \<bar>of_int k / 10 - x\<bar> \<le> 1 / 20
                            \<and> (\<bar>of_int k / 10 - x\<bar> = 1 / 20 \<longrightarrow> even k))
                     | PInf \<Rightarrow> y = PInf
                     | NInf \<Rightarrow> y = NInf
                     | NaN \<Rightarrow> y = NaN)"
    if h: "hopper_percent_raw d = None \<and> feeder_time_remaining_s d = Some r
             \<and> feeder_time_total_s d = Some t \<and> fgt t (Fin 0)" for r t
  proof -
    from h fdiv_positive [of t r] obtain q where q: "fdiv r t = Inr q" by blast
    from py_round_fmul [of q "Fin 100" 1] obtain y where
      y: "py_round (fmul q (Fin 100)) 1 = Inr y" by blast
    from h q y have "hopper_level_percent d = Inr (Some y)"
      by (simp add: hopper_level_percent_def bind_exn_def)
    with q y py_round_1_cases [OF y] show ?thesis by blast
  qed
  show "hopper_level_percent d = Inr None"
    if "hopper_percent_raw d = None
        \<and> (feeder_time_remaining_s d = None \<or> feeder_time_total_s d = None
            \<or> (\<exists>t. feeder_time_total_s d = Some t \<and> \<not> fgt t (Fin 0)))"
    using that by (auto simp: hopper_level_percent_def split: option.splits)
  show "fdiv (Fin a) (Fin b) = Inr (to_double (a / b))" if "0 < b" for a b
    using that by simp
  show "fmul (Fin a) (Fin 100) = to_double (a * 100)" for a by simp
  show "\<exists>m e. v = of_int m * 2 powi e \<and> \<bar>m\<bar> < 2 ^ 53 \<and> - 1074 \<le> e"
    if "to_double z = Fin v" for z v
    using that by (rule to_double_grid)
  show "\<bar>v - z\<bar> \<le> \<bar>z\<bar> / 2 ^ 53" if "to_double z = Fin v" "2 powi (- 1022) \<le> \<bar>z\<bar>" for z v
    using that by (rule to_double_accuracy)
  show "\<bar>v - z\<bar> \<le> \<bar>of_int m * 2 powi e - z\<bar>"
    if "to_double z = Fin v \<and> \<bar>m\<bar> < 2 ^ 53 \<and> - 1074 \<le> e" for z v m e
    using that to_double_nearest [of z v m e] by simp
  show "hopper_level_percent (data_example
         \<lparr> hopper_percent_raw := None, feeder_time_remaining_s := Some (Fin 600),
           feeder_time_total_s := Some (Fin 1200) \<rparr>) = Inr (Some (Fin 50))"
    by (simp add: data_example_def float_eval)
  show "hopper_level_percent (data_example
         \<lparr> hopper_percent_raw := None, feeder_time_remaining_s := Some (Fin 1),
           feeder_time_total_s := Some (Fin 3) \<rparr>) = Inr (Some (to_double (333 / 10)))"
    by (simp add: data_example_def hopper_level_percent_def bind_exn_def fgt_def
        ex_third_q ex_third_x ex_third_y [unfolded One_nat_def] td_333
        del: fdiv.simps fmul.simps)
  show "to_double (333 / 10) = Fin (2343279181116211 / 70368744177664)" by (rule td_333)
  show "hopper_level_percent (data_example
         \<lparr> hopper_percent_raw := None, feeder_time_total_s := Some (Fin 0) \<rparr>) = Inr None"
    by (simp add: data_example_def float_eval)
qed

theorem hopper_level_percent_cases_witness:
  "hopper_percent_raw (data_example \<lparr> hopper_percent_raw := Some (Fin 80) \<rparr>) \<noteq> None
   \<and> hopper_level_percent (data_example \<lparr> hopper_percent_raw := Some (Fin 80) \<rparr>)
       = Inr (Some (Fin 80))
   \<and> hopper_percent_raw data_example = None
   \<and> feeder_time_total_s (data_example \<lparr> feeder_time_total_s := None \<rparr>) = None
   \<and> hopper_level_percent (data_example \<lparr> feeder_time_total_s := None \<rparr>) = Inr None
   \<and> feeder_time_remaining_s data_example = Some (Fin 0)
   \<and> feeder_time_total_s data_example = Some (Fin 41538)
   \<and> fgt (Fin 41538) (Fin 0)
   \<and> fdiv (Fin 0) (Fin 41538) = Inr (Fin 0)
   \<and> fmul (Fin 0) (Fin 100) = Fin 0
   \<and> hopper_level_percent data_example = Inr (Some (Fin 0))"
proof -
  let ?d1 = "data_example \<lparr> hopper_percent_raw := Some (Fin 80) \<rparr>"
  let ?d2 = "data_example \<lparr> feeder_time_total_s := None \<rparr>"
  have 1: "hopper_percent_raw ?d1 \<noteq> None" by simp
  have 2: "hopper_percent_raw ?d1 = Some (Fin 80)" by simp
  have 3: "hopper_percent_raw data_example = None" by (simp add: data_example_def)
  have 4: "hopper_percent_raw ?d2 = None" "feeder_time_total_s ?d2 = None"
    by (simp_all add: data_example_def)
  have 7: "feeder_time_remaining_s data_example = Some (Fin 0)"
    "feeder_time_total_s data_example = Some (Fin 41538)" "fgt (Fin 41538) (Fin 0)"
    by (simp_all add: data_example_def fgt_def)
  have 8: "fdiv (Fin 0) (Fin 41538) = Inr (Fin 0)" "fmul (Fin 0) (Fin 100) = Fin 0"
    by (simp_all add: to_double_def)
  note T = hopper_level_percent_cases
  from T [of ?d1, THEN conjunct1] 1 2
  have 5: "hopper_level_percent ?d1 = Inr (Some (Fin 80))" by simp
  from T [of ?d2, THEN conjunct2, THEN conjunct2, THEN conjunct1] 4
  have 6: "hopper_level_percent ?d2 = Inr None" by blast
  from T [of data_example, THEN conjunct2, THEN conjunct1, rule_format,
          of "Fin 0" "Fin 41538"] 3 7
  obtain q y where qy: "fdiv (Fin 0) (Fin 41538) = Inr q"
    "hopper_level_percent data_example = Inr (Some y)"
    "case fmul q (Fin 100) of
       Fin x \<Rightarrow> (\<exists>k v. y = Fin v \<and> to_double (of_int k / 10) = Fin v
                   \<and> \<bar>of_int k / 10 - x\<bar> \<le> 1 / 20
                   \<and> (\<bar>of_int k / 10 - x\<bar> = 1 / 20 \<longrightarrow> even k))
     | PInf \<Rightarrow> y = PInf | NInf \<Rightarrow> y = NInf | NaN \<Rightarrow> y = NaN"
    by blast
  from qy(1) 8(1) have q: "q = Fin 0" by simp
  from qy(3) obtain k v where kv: "y = Fin v" "to_double (of_int k / 10) = Fin v"
    "\<bar>of_int k / 10 - 0\<bar> \<le> (1 / 20 :: rat)"
    unfolding q 8(2) by auto
  from kv(3) have "\<bar>of_int k :: rat\<bar> \<le> 1 / 2" by simp
  then have "\<bar>of_int k :: rat\<bar> < 1" by linarith
  then have "k = 0" by (metis abs_zero of_int_abs of_int_less_1_iff zero_less_abs_iff
      not_less_iff_gr_or_eq less_le_not_le int_one_le_iff_zero_less of_int_0)
  with kv(2) have "v = 0" by (simp add: to_double_def)
  with kv(1) qy(2) have 9: "hopper_level_percent data_example = Inr (Some (Fin 0))" by simp
  from 1 3 4(2) 5 6 7 8 9 show ?thesis by (intro conjI)
qed

lemma td_1805_reduced: "to_double (361 / 20) = Fin (5080623329627341 / 281474976710656)"
  using td_1805 by simp

text \<open>
  C8. With runtime and rate present and the rate above zero, \<open>fuel_consumption_kg\<close>
  is \<open>runtime / 60 * rate / 1000\<close> in float operations, rounded to two decimals: the
  double of \<open>k / 100\<close> for an integer \<open>k\<close> with \<open>k / 100\<close> at most 0.005 from that value,
  \<open>k\<close> even when it is exactly 0.005 away (an infinite or NaN value is returned as it
  is); the computation never raises. Otherwise the result is \<open>None\<close>. Runtime 120 and
  rate 300 give 0.6, runtime 4165 and rate 260 give 18.05, rate 0 gives \<open>None\<close>.
\<close>

theorem fuel_consumption_kg_cases:
  "(\<forall>s g. feeder_time_s d = Some s \<and> feeder_g_per_min d = Some g \<and> fgt g (Fin 0) \<longrightarrow>
          (\<exists>m kg y. fdiv s (Fin 60) = Inr m \<and> fdiv (fmul m g) (Fin 1000) = Inr kg
                 \<and> py_round kg 2 = Inr y \<and> fuel_consumption_kg d = Inr (Some y)
                 \<and> (case kg of
                       Fin x \<Rightarrow>
                         (\<exists>k v. y = Fin v \<and> to_double (of_int k / 100) = Fin v
                            \<and> \<bar>of_int k / 100 - x\<bar> \<le> 1 / 200
                            \<and> (\<bar>of_int k / 100 - x\<bar> = 1 / 200 \<longrightarrow> even k))
                     | PInf \<Rightarrow> y = PInf
                     | NInf \<Rightarrow> y = NInf
                     | NaN \<Rightarrow> y = NaN)))
   \<and> (feeder_time_s d = None \<or> feeder_g_per_min d = None
        \<or> (\<exists>g. feeder_g_per_min d = Some g \<and> \<not> fgt g (Fin 0)) \<longrightarrow>
          fuel_consumption_kg d = Inr None)
   \<and> (\<forall>a. fdiv (Fin a) (Fin 60) = Inr (to_double (a / 60)))
   \<and> (\<forall>a b. fmul (Fin a) (Fin b) = to_double (a * b))
   \<and> (\<forall>a. fdiv (Fin a) (Fin 1000) = Inr (to_double (a / 1000)))
   \<and> (\<forall>z v. to_double z = Fin v \<longrightarrow>
          (\<exists>m e. v = of_int m * 2 powi e \<and> \<bar>m\<bar> < 2 ^ 53 \<and> - 1074 \<le> e)
          \<and> (2 powi (- 1022) \<le> \<bar>z\<bar> \<longrightarrow> \<bar>v - z\<bar> \<le> \<bar>z\<bar> / 2 ^ 53))
   \<and> (\<forall>z v m e. to_double z = Fin v \<and> \<bar>m\<bar> < 2 ^ 53 \<and> - 1074 \<le> e \<longrightarrow>
          \<bar>v - z\<bar> \<le> \<bar>of_int m * 2 powi e - z\<bar>)
   \<and> fuel_consumption_kg (data_example
         \<lparr> feeder_time_s := Some (Fin 120), feeder_g_per_min := Some (Fin 300) \<rparr>)
       = Inr (Some (to_double (3 / 5)))
   \<and> to_double (3 / 5) = Fin (5404319552844595 / 9007199254740992)
   \<and> fuel_consumption_kg data_example = Inr (Some (to_double (1805 / 100)))
   \<and> to_double (1805 / 100) = Fin (5080623329627341 / 281474976710656)
   \<and> fuel_consumption_kg (data_example \<lparr> feeder_g_per_min := Some (Fin 0) \<rparr>) = Inr None"
proof (intro conjI allI impI)
  show "\<exists>m kg y. fdiv s (Fin 60) = Inr m \<and> fdiv (fmul m g) (Fin 1000) = Inr kg
                 \<and> py_round kg 2 = Inr y \<and> fuel_consumption_kg d = Inr (Some y)
                 \<and> (case kg of
                       Fin x \<Rightarrow>
                         (\<exists>k v. y = Fin v \<and> to_double (of_int k / 100) = Fin v
                            \<and> \<bar>of_int k / 100 - x\<bar> \<le> 1 / 200
                            \<and> (\<bar>of_int k / 100 - x\<bar> = 1 / 200 \<longrightarrow> even k))
                     | PInf \<Rightarrow> y = PInf
                     | NInf \<Rightarrow> y = NInf
                     | NaN \<Rightarrow> y = NaN)"
    if h: "feeder_time_s d = Some s \<and> feeder_g_per_min d = Some g \<and> fgt g (Fin 0)" for s g
  proof -
    from fdiv_positive [of "Fin 60" s] obtain m where m: "fdiv s (Fin 60) = Inr m"
      by (auto simp: fgt_def)
    from fdiv_positive [of "Fin 1000" "fmul m g"] obtain kg where
      kg: "fdiv (fmul m g) (Fin 1000) = Inr kg" by (auto simp: fgt_def)
    from py_round_fdiv [OF kg, of 2] obtain y where y: "py_round kg 2 = Inr y" by blast
    from h m kg y have "fuel_consumption_kg d = Inr (Some y)"
      by (simp add: fuel_consumption_kg_def bind_exn_def)
    with m kg y py_round_2_cases [OF y] show ?thesis by blast
  qed
  show "fuel_consumption_kg d = Inr None"
    if "feeder_time_s d = None \<or> feeder_g_per_min d = None
        \<or> (\<exists>g. feeder_g_per_min d = Some g \<and> \<not> fgt g (Fin 0))"
    using that by (auto simp: fuel_consumption_kg_def split: option.splits)
  show "fdiv (Fin a) (Fin 60) = Inr (to_double (a / 60))" for a by simp
  show "fmul (Fin a) (Fin b) = to_double (a * b)" for a b by simp
  show "fdiv (Fin a) (Fin 1000) = Inr (to_double (a / 1000))" for a by simp
  show "\<exists>m e. v = of_int m * 2 powi e \<and> \<bar>m\<bar> < 2 ^ 53 \<and> - 1074 \<le> e"
    if "to_double z = Fin v" for z v
    using that by (rule to_double_grid)
  show "\<bar>v - z\<bar> \<le> \<bar>z\<bar> / 2 ^ 53" if "to_double z = Fin v" "2 powi (- 1022) \<le> \<bar>z\<bar>" for z v
    using that by (rule to_double_accuracy)
  show "\<bar>v - z\<bar> \<le> \<bar>of_int m * 2 powi e - z\<bar>"
    if "to_double z = Fin v \<and> \<bar>m\<bar> < 2 ^ 53 \<and> - 1074 \<le> e" for z v m e
    using that to_double_nearest [of z v m e] by simp
  show "fuel_consumption_kg (data_example
         \<lparr> feeder_time_s := Some (Fin 120), feeder_g_per_min := Some (Fin 300) \<rparr>)
       = Inr (Some (to_double (3 / 5)))"
    by (simp add: data_example_def float_eval)
  show "to_double (3 / 5) = Fin (5404319552844595 / 9007199254740992)" by (rule td_06)
  show "fuel_consumption_kg data_example = Inr (Some (to_double (1805 / 100)))"
    by (simp add: data_example_def fuel_consumption_kg_def bind_exn_def fgt_def
        ex_fuel_m ex_fuel_p ex_fuel_kg ex_fuel_y td_1805_reduced
        del: fdiv.simps fmul.simps)
  show "to_double (1805 / 100) = Fin (5080623329627341 / 281474976710656)" by (rule td_1805)
  show "fuel_consumption_kg (data_example \<lparr> feeder_g_per_min := Some (Fin 0) \<rparr>) = Inr None"
    by (simp add: data_example_def float_eval)
qed

theorem fuel_consumption_kg_cases_witness:
  "feeder_g_per_min (data_example \<lparr> feeder_g_per_min := None \<rparr>) = None
   \<and> fuel_consumption_kg (data_example \<lparr> feeder_g_per_min := None \<rparr>) = Inr None
   \<and> feeder_time_s data_example = Some (Fin 4165)
   \<and> feeder_g_per_min data_example = Some (Fin 260)
   \<and> fgt (Fin 260) (Fin 0)
   \<and> fuel_consumption_kg data_example \<noteq> Inr None
   \<and> fdiv (fmul (Fin (4884763658332843 / 70368744177664)) (Fin 260)) (Fin 1000)
       = Inr (Fin (5080154204666157 / 281474976710656))
   \<and> fuel_consumption_kg data_example \<noteq> Inr (Some (Fin (5080154204666157 / 281474976710656)))"
proof -
  let ?d2 = "data_example \<lparr> feeder_g_per_min := None \<rparr>"
  let ?x = "5080154204666157 / 281474976710656 :: rat"
  have 1: "feeder_g_per_min ?d2 = None" by simp
  have 2: "feeder_time_s data_example = Some (Fin 4165)"
    "feeder_g_per_min data_example = Some (Fin 260)" "fgt (Fin 260) (Fin 0)"
    by (simp_all add: data_example_def fgt_def)
  have 5: "fdiv (fmul (Fin (4884763658332843 / 70368744177664)) (Fin 260)) (Fin 1000)
       = Inr (Fin ?x)"
    by (simp only: ex_fuel_p ex_fuel_kg)
  note T = fuel_consumption_kg_cases
  from T [of ?d2, THEN conjunct2, THEN conjunct1] 1
  have 3: "fuel_consumption_kg ?d2 = Inr None" by blast
  from T [of data_example, THEN conjunct1, rule_format, of "Fin 4165" "Fin 260"] 2
  obtain m kg y where r: "fdiv (Fin 4165) (Fin 60) = Inr m"
    "fdiv (fmul m (Fin 260)) (Fin 1000) = Inr kg"
    "fuel_consumption_kg data_example = Inr (Some y)"
    "case kg of
       Fin x \<Rightarrow> (\<exists>k v. y = Fin v \<and> to_double (of_int k / 100) = Fin v
                   \<and> \<bar>of_int k / 100 - x\<bar> \<le> 1 / 200
                   \<and> (\<bar>of_int k / 100 - x\<bar> = 1 / 200 \<longrightarrow> even k))
     | PInf \<Rightarrow> y = PInf | NInf \<Rightarrow> y = NInf | NaN \<Rightarrow> y = NaN"
    by blast
  from r(3) have 4: "fuel_consumption_kg data_example \<noteq> Inr None" by simp
  from r(1) ex_fuel_m have m: "m = Fin (4884763658332843 / 70368744177664)" by simp
  from r(2) 5 have kg: "kg = Fin ?x" unfolding m by simp
  from r(4) obtain k v where kv: "y = Fin v" "to_double (of_int k / 100) = Fin v"
    unfolding kg by auto
  have 6: "fuel_consumption_kg data_example \<noteq> Inr (Some (Fin ?x))"
  proof
    assume "fuel_consumption_kg data_example = Inr (Some (Fin ?x))"
    with r(3) kv(1) have "v = ?x" by simp
    moreover have "fuel_consumption_kg data_example = Inr (Some (to_double (1805 / 100)))"
      by (rule T [of data_example, THEN conjunct2, THEN conjunct2, THEN conjunct2,
                  THEN conjunct2, THEN conjunct2, THEN conjunct2, THEN conjunct2,
                  THEN conjunct2, THEN conjunct2, THEN conjunct1])
    ultimately show False using r(3) kv(1) td_1805_reduced by simp
  qed
  from 1 2 3 4 5 6 show ?thesis by (intro conjI)
qed

section \<open>The poll cycle\<close>

lemma LucjanData_init_thermos_null:
  "LucjanData_init parse_float parse_int to_str
     [(str ''thermos'', JNull), (str ''wen0'', JInt 5)] config = Inl TypeError"
  by (simp add: LucjanData_init_def json_eval str_def)




section \<open>The upload\<close>

text \<open>
  The whole sequence of \<open>async_set_config_param\<close> on the example text: the fetch, the
  upload of the encoded new text, the sleep and the reload. A value with a surrogate
  cannot be encoded: the exception of \<open>encode\<close> is not caught and nothing is uploaded.
\<close>

lemma set_config_param_upload_example:
  "async_set_config_param api0 (dev_serving config_example) (str ''PIEC_ZADANA'') (str ''60'') [] =
     (Inr True,
      [Get (str ''http://boiler/config.txt''),
       Put (str ''http://boiler/upload/config.txt'')
           (str ''# comment'' @ [LF] @ str ''PIEC_ZADANA = 60'' @ [LF]
            @ str ''CO_TRYB=ZIMA # note'' @ [LF]),
       Sleep 500,
       Get (str ''http://boiler/configreload'')])"
  by (simp add: async_set_config_param_def io_eval api0_def dev_serving_def config_example_def
      string_eval encode_utf8_def utf8_char_def)

lemma set_config_param_surrogate:
  "async_set_config_param api0 (dev_serving config_example) (str ''PIEC_ZADANA'') [55296] [] =
     (Inl UnicodeEncodeError, [Get (str ''http://boiler/config.txt'')])"
  by (simp add: async_set_config_param_def io_eval api0_def dev_serving_def config_example_def
      string_eval encode_utf8_def utf8_char_def)

end
